theory Spec2Isabelle
  imports Main "HOL-Library.Sublist"
begin

section \<open>Strings, errors and the collaborators of \<open>discord/message.py\<close>\<close>

text \<open>
  A Python \<open>str\<close> is a sequence of Unicode code points. The zero-width space U+200B
  that \<open>clean_content\<close> inserts is one code point, so strings are lists of code points
  (natural numbers); \<open>lit\<close> embeds an ASCII literal.
\<close>

type_synonym codepoint = nat
type_synonym str = "codepoint list"

definition lit :: "string \<Rightarrow> str" where
  "lit s = map of_char s"

text \<open>The exceptions that the modelled code can raise.\<close>

datatype error = ParseError | AttributeError | TypeError

text \<open>A naive \<open>datetime.datetime\<close>: year, month, day, hour, minute, second, microsecond.\<close>

datatype datetime = Datetime nat nat nat nat nat nat nat

text \<open>Embeds, attachments and the nonce are opaque to this module.\<close>

typedecl json

text \<open>
  Modelled from the spec: the classes of the roster, which are not among the sources. The
  module reads \<open>id\<close> and \<open>display_name\<close> of a member, \<open>id\<close> and \<open>name\<close> of a mentioned
  channel and of a role, and nothing else.
\<close>

record member =
  member_id :: str
  display_name :: str

record mentioned_channel =
  channel_id :: str
  channel_name :: str

record role =
  role_id :: str
  role_name :: str

text \<open>
  Modelled from the spec: the class \<open>User\<close>, which is not among the sources. A user
  fragment of the payload (\<open>author\<close>, and each entry of \<open>mentions\<close>) is also what
  \<open>User(**fragment)\<close> keeps: a key that is missing reads as \<open>None\<close>.
\<close>

record user =
  user_id :: "str option"
  username :: "str option"

datatype author = UserA user | MemberA member

text \<open>
  Modelled from the spec: the server, which is not among the sources. \<open>get_member(id)\<close> and
  \<open>get_channel(id)\<close> return an entity or \<open>None\<close>, \<open>roles\<close> is a list. The argument of
  \<open>get_member\<close> is whatever \<open>.get('id')\<close> gave, possibly \<open>None\<close>.
\<close>

record server =
  get_member :: "str option \<Rightarrow> member option"
  get_channel :: "str \<Rightarrow> mentioned_channel option"
  roles :: "role list"

text \<open>
  The channel of a message: a \<open>discord.Object\<close> (an id, and an \<open>is_private\<close> attribute only
  if somebody set it), or a real channel with its \<open>is_private\<close> flag and its \<open>server\<close>
  attribute. An absent channel is \<open>None\<close> of \<open>channel option\<close>.
\<close>

datatype channel =
    Object str "bool option"
  | Channel str bool "server option"

record message =
  edited_timestamp :: "datetime option"
  timestamp :: "datetime option"
  tts :: "bool option"
  content :: "str option"
  channel :: "channel option"
  mention_everyone :: "bool option"
  embeds :: "json option"
  msg_id :: "str option"
  mentions :: "member list"
  author :: author
  channel_mentions :: "mentioned_channel list"
  server :: "server option"
  cached_raw_mentions :: "str list option"
  attachments :: "json option"
  cached_clean_content :: "str option"
  cached_raw_channel_mentions :: "str list option"
  nonce :: "json option"
  role_mentions :: "role list"
  cached_raw_role_mentions :: "str list option"

text \<open>The keyword arguments of \<open>_update\<close>; \<open>None\<close> is a key that is missing.\<close>

record payload =
  p_edited_timestamp :: "str option"
  p_timestamp :: "str option"
  p_tts :: "bool option"
  p_content :: "str option"
  p_mention_everyone :: "bool option"
  p_embeds :: "json option"
  p_id :: "str option"
  p_channel :: "channel option"
  p_author :: "user option"
  p_nonce :: "json option"
  p_attachments :: "json option"
  p_channel_id :: "str option"
  p_mentions :: "user list option"
  p_mention_roles :: "str list option"

section \<open>Regular expressions of the module\<close>

text \<open>
  A matcher tries a pattern at the start of a string and returns what the caller needs
  together with the length of the match. \<open>scan_findall\<close> is \<open>re.findall\<close> for a pattern
  with one group, \<open>scan_sub\<close> is \<open>pattern.sub(repl, s)\<close>: both scan from the left, take the
  match at the leftmost position and go on behind it. Every matcher below matches at least
  one character, so \<open>drop (n - 1) cs\<close> is the rest of \<open>c # cs\<close> behind a match of length
  \<open>n\<close>.
\<close>

fun scan_findall :: "(str \<Rightarrow> (str \<times> nat) option) \<Rightarrow> str \<Rightarrow> str list" where
  "scan_findall mt [] = []"
| "scan_findall mt (c # cs) =
     (case mt (c # cs) of
        Some (g, n) \<Rightarrow> g # scan_findall mt (drop (n - 1) cs)
      | None \<Rightarrow> scan_findall mt cs)"

fun scan_sub :: "(str \<Rightarrow> (str \<times> nat) option) \<Rightarrow> str \<Rightarrow> str" where
  "scan_sub mt [] = []"
| "scan_sub mt (c # cs) =
     (case mt (c # cs) of
        Some (r, n) \<Rightarrow> r @ scan_sub mt (drop (n - 1) cs)
      | None \<Rightarrow> c # scan_sub mt cs)"

definition is_digit :: "codepoint \<Rightarrow> bool" where
  "is_digit c \<longleftrightarrow> 48 \<le> c \<and> c \<le> 57"

text \<open>
  \<open>opening([0-9]+)>\<close> for a literal \<open>opening\<close>: the digits are taken greedily, and giving
  one back never helps, since the next character would be a digit and not \<open>>\<close>.
\<close>

definition match_marker :: "str \<Rightarrow> str \<Rightarrow> (str \<times> nat) option" where
  "match_marker opening s =
     (if prefix opening s then
        (let r = drop (length opening) s; ds = takeWhile is_digit r in
         if ds \<noteq> [] \<and> prefix (lit ''>'') (dropWhile is_digit r)
         then Some (ds, length opening + length ds + 1)
         else None)
      else None)"

text \<open>\<open><@!?([0-9]+)>\<close>: the optional \<open>!\<close> is tried first, then the pattern without it.\<close>

definition user_pattern :: "str \<Rightarrow> (str \<times> nat) option" where
  "user_pattern s =
     (case match_marker (lit ''<@!'') s of
        Some r \<Rightarrow> Some r
      | None \<Rightarrow> match_marker (lit ''<@'') s)"

text \<open>\<open><#([0-9]+)>\<close> and \<open><@&([0-9]+)>\<close>.\<close>

definition channel_pattern :: "str \<Rightarrow> (str \<times> nat) option" where
  "channel_pattern = match_marker (lit ''<#'')"

definition role_pattern :: "str \<Rightarrow> (str \<times> nat) option" where
  "role_pattern = match_marker (lit ''<@&'')"

text \<open>\<open>re.findall(pattern, self.content)\<close>; a \<open>content\<close> of \<open>None\<close> raises \<open>TypeError\<close>.\<close>

definition re_findall :: "(str \<Rightarrow> (str \<times> nat) option) \<Rightarrow> str option \<Rightarrow> error + str list" where
  "re_findall mt s = (case s of None \<Rightarrow> Inl TypeError | Some t \<Rightarrow> Inr (scan_findall mt t))"

subsection \<open>Dictionaries and the substitution pass\<close>

text \<open>
  A \<open>dict\<close> with its insertion order: storing under a key that is present replaces the
  value in place, a new key goes to the end.
\<close>

fun dict_set :: "'k \<Rightarrow> 'v \<Rightarrow> ('k \<times> 'v) list \<Rightarrow> ('k \<times> 'v) list" where
  "dict_set k v [] = [(k, v)]"
| "dict_set k v (p # ps) = (if fst p = k then (k, v) # ps else p # dict_set k v ps)"

definition dict_update :: "('k \<times> 'v) list \<Rightarrow> ('k \<times> 'v) list \<Rightarrow> ('k \<times> 'v) list" where
  "dict_update d other = foldl (\<lambda>acc (k, v). dict_set k v acc) d other"

text \<open>A dict comprehension \<open>{key(x): val(x) for x in xs}\<close>.\<close>

definition dict_comp :: "('a \<Rightarrow> 'k) \<Rightarrow> ('a \<Rightarrow> 'v) \<Rightarrow> 'a list \<Rightarrow> ('k \<times> 'v) list" where
  "dict_comp key val xs = foldl (\<lambda>acc x. dict_set (key x) (val x) acc) [] xs"

text \<open>\<open>transformations.get(k, '')\<close>.\<close>

definition dict_get :: "(str \<times> str) list \<Rightarrow> str \<Rightarrow> str" where
  "dict_get d k = (case map_of d k of Some v \<Rightarrow> v | None \<Rightarrow> [])"

text \<open>
  The pattern \<open>'|'.join(transformations.keys())\<close> at the start of a string: the
  alternatives are literals (\<open>re.escape\<close> of a key matches exactly that text, and the
  look-up of \<open>re.escape(obj.group(0))\<close> finds the key again, so the dictionary is kept
  under the unescaped text), and the first alternative that matches wins. The result is
  what \<open>repl\<close> returns for the match, and the length of the match.
\<close>

definition keys_pattern :: "(str \<times> str) list \<Rightarrow> str \<Rightarrow> (str \<times> nat) option" where
  "keys_pattern d s =
     (case find (\<lambda>k. prefix k s) (map fst d) of
        Some k \<Rightarrow> Some (dict_get d k, length k)
      | None \<Rightarrow> None)"

text \<open>
  \<open>re.compile('|'.join(d.keys())).sub(repl, s)\<close>. An empty dictionary gives the empty
  pattern, which matches the empty string at every position of \<open>s\<close>: \<open>repl\<close> is called
  with the empty match there and every character is copied.
\<close>

definition re_sub :: "(str \<times> str) list \<Rightarrow> str \<Rightarrow> str" where
  "re_sub d s =
     (if d = [] then (let r = dict_get d [] in r @ concat (map (\<lambda>c. c # r) s))
      else scan_sub (keys_pattern d) s)"

section \<open>The message\<close>

subsection \<open>Hydration\<close>

text \<open>\<open>self.author.id\<close>.\<close>

fun author_id :: "author \<Rightarrow> str option" where
  "author_id (UserA u) = user_id u"
| "author_id (MemberA mb) = Some (member_id mb)"

text \<open>\<open>_handle_upgrades(channel_id)\<close>.\<close>

definition handle_upgrades :: "str option \<Rightarrow> message \<Rightarrow> error + message" where
  "handle_upgrades cid self0 =
     (let self = self0\<lparr>server := None\<rparr> in
      case channel self of
        Some (Object i a) \<Rightarrow> Inr self
      | None \<Rightarrow>
          (case cid of
             Some c \<Rightarrow> Inr (self\<lparr>channel := Some (Object c (Some True))\<rparr>)
           | None \<Rightarrow> Inr self)
      | Some (Channel i priv srv) \<Rightarrow>
          if \<not> priv then
            (case srv of
               None \<Rightarrow> Inl AttributeError
             | Some s \<Rightarrow>
                 (case get_member s (author_id (author self)) of
                    Some found \<Rightarrow> Inr (self\<lparr>server := srv, author := MemberA found\<rparr>)
                  | None \<Rightarrow> Inr (self\<lparr>server := srv\<rparr>)))
          else Inr self)"

text \<open>\<open>getattr(self.channel, 'is_private', True)\<close>.\<close>

fun getattr_is_private :: "channel option \<Rightarrow> bool" where
  "getattr_is_private None = True"
| "getattr_is_private (Some (Object i None)) = True"
| "getattr_is_private (Some (Object i (Some b))) = b"
| "getattr_is_private (Some (Channel i priv srv)) = priv"

text \<open>
  The loop \<open>for x in xs: r = look(x); if r is not None: out.append(r)\<close>, started on the
  list \<open>out\<close>.
\<close>

fun append_found :: "('a \<Rightarrow> 'b option) \<Rightarrow> 'a list \<Rightarrow> 'b list \<Rightarrow> 'b list" where
  "append_found look [] out = out"
| "append_found look (x # xs) out =
     append_found look xs (case look x of Some r \<Rightarrow> out @ [r] | None \<Rightarrow> out)"

text \<open>
  The loop over the payload's \<open>mentions\<close>: \<open>self.server.get_member\<close> raises in the first
  round when \<open>self.server\<close> is \<open>None\<close>.
\<close>

definition resolve_members :: "server option \<Rightarrow> user list \<Rightarrow> error + member list" where
  "resolve_members srv ms =
     (if ms = [] then Inr []
      else case srv of
             None \<Rightarrow> Inl AttributeError
           | Some s \<Rightarrow> Inr (append_found (\<lambda>mention. get_member s (user_id mention)) ms []))"

text \<open>
  Modelled from the spec: \<open>utils.get\<close>, which is not among the sources.
  \<open>utils.get(self.server.roles, id=role_id)\<close> is the first role with that id, or \<open>None\<close>.
\<close>

definition utils_get_role :: "role list \<Rightarrow> str \<Rightarrow> role option" where
  "utils_get_role rs i = find (\<lambda>r. role_id r = i) rs"

text \<open>
  Modelled from the spec: \<open>utils.cached_slot_property\<close>, which is not among the sources.
  The value is computed on the first access after the slot was cleared and stored in the
  slot; a later access returns the stored value. An access is a step of the state.
\<close>

definition cached_slot_property ::
  "(message \<Rightarrow> 'a option) \<Rightarrow> ('a option \<Rightarrow> message \<Rightarrow> message) \<Rightarrow> (message \<Rightarrow> error + 'a) \<Rightarrow>
   message \<Rightarrow> error + ('a \<times> message)" where
  "cached_slot_property slot store body self =
     (case slot self of
        Some v \<Rightarrow> Inr (v, self)
      | None \<Rightarrow>
          (case body self of
             Inl e \<Rightarrow> Inl e
           | Inr v \<Rightarrow> Inr (v, store (Some v) self)))"

definition raw_mentions :: "message \<Rightarrow> error + (str list \<times> message)" where
  "raw_mentions =
     cached_slot_property cached_raw_mentions (\<lambda>v m. m\<lparr>cached_raw_mentions := v\<rparr>)
       (\<lambda>self. re_findall user_pattern (content self))"

definition raw_channel_mentions :: "message \<Rightarrow> error + (str list \<times> message)" where
  "raw_channel_mentions =
     cached_slot_property cached_raw_channel_mentions (\<lambda>v m. m\<lparr>cached_raw_channel_mentions := v\<rparr>)
       (\<lambda>self. re_findall channel_pattern (content self))"

definition raw_role_mentions :: "message \<Rightarrow> error + (str list \<times> message)" where
  "raw_role_mentions =
     cached_slot_property cached_raw_role_mentions (\<lambda>v m. m\<lparr>cached_raw_role_mentions := v\<rparr>)
       (\<lambda>self. re_findall role_pattern (content self))"

text \<open>\<open>_handle_mentions(mentions, role_mentions)\<close>.\<close>

definition handle_mentions :: "user list \<Rightarrow> str list \<Rightarrow> message \<Rightarrow> error + message" where
  "handle_mentions ms rs self0 =
     (let self = self0\<lparr>mentions := [], channel_mentions := [], role_mentions := []\<rparr> in
      if getattr_is_private (channel self) then Inr self
      else
        case (if channel self \<noteq> None then resolve_members (server self) ms else Inr []) of
          Inl e \<Rightarrow> Inl e
        | Inr found \<Rightarrow>
            (let self = self\<lparr>mentions := found\<rparr> in
             case server self of
               None \<Rightarrow> Inr self
             | Some s \<Rightarrow>
                 (case raw_channel_mentions self of
                    Inl e \<Rightarrow> Inl e
                  | Inr (ids, self) \<Rightarrow>
                      Inr (self\<lparr>channel_mentions := append_found (get_channel s) ids [],
                                 role_mentions := append_found (utils_get_role (roles s)) rs []\<rparr>))))"

text \<open>The loop that deletes every slot whose name starts with an underscore.\<close>

definition clear_cached :: "message \<Rightarrow> message" where
  "clear_cached self =
     self\<lparr>cached_raw_mentions := None, cached_clean_content := None,
          cached_raw_channel_mentions := None, cached_raw_role_mentions := None\<rparr>"

text \<open>
  Modelled from the spec: the constructor of \<open>User\<close>, in \<open>User(**data.get('author', {}))\<close>.
\<close>

definition User :: "user option \<Rightarrow> user" where
  "User fragment =
     (case fragment of None \<Rightarrow> \<lparr>user_id = None, username = None\<rparr> | Some u \<Rightarrow> u)"

text \<open>
  \<open>_update(**data)\<close>. \<open>utils.parse_time\<close> is not among the sources and is a parameter: it
  returns the parsed time, \<open>None\<close> for an absent one, or raises.
\<close>

definition update ::
  "(str option \<Rightarrow> error + datetime option) \<Rightarrow> payload \<Rightarrow> message \<Rightarrow> error + message" where
  "update parse_time data self =
     (case parse_time (p_edited_timestamp data) of
        Inl e \<Rightarrow> Inl e
      | Inr et \<Rightarrow>
     (case parse_time (p_timestamp data) of
        Inl e \<Rightarrow> Inl e
      | Inr t \<Rightarrow>
     (case handle_upgrades (p_channel_id data)
             (self\<lparr>edited_timestamp := et, timestamp := t, tts := p_tts data,
                   content := p_content data, mention_everyone := p_mention_everyone data,
                   embeds := p_embeds data, msg_id := p_id data, channel := p_channel data,
                   author := UserA (User (p_author data)), nonce := p_nonce data,
                   attachments := p_attachments data\<rparr>) of
        Inl e \<Rightarrow> Inl e
      | Inr upgraded \<Rightarrow>
     (case handle_mentions (case p_mentions data of None \<Rightarrow> [] | Some ms \<Rightarrow> ms)
             (case p_mention_roles data of None \<Rightarrow> [] | Some rs \<Rightarrow> rs) upgraded of
        Inl e \<Rightarrow> Inl e
      | Inr resolved \<Rightarrow> Inr (clear_cached resolved)))))"

text \<open>
  A new instance has no slot set; \<open>__init__\<close> calls \<open>_update\<close>, which assigns every slot
  that is not a cache before it reads it.
\<close>

definition unset :: message where
  "unset =
     \<lparr>edited_timestamp = None, timestamp = None, tts = None, content = None, channel = None,
      mention_everyone = None, embeds = None, msg_id = None, mentions = [],
      author = UserA (User None), channel_mentions = [], server = None,
      cached_raw_mentions = None, attachments = None, cached_clean_content = None,
      cached_raw_channel_mentions = None, nonce = None, role_mentions = [],
      cached_raw_role_mentions = None\<rparr>"

definition init ::
  "(str option \<Rightarrow> error + datetime option) \<Rightarrow> payload \<Rightarrow> error + message" where
  "init parse_time data = update parse_time data unset"

subsection \<open>Clean content\<close>

text \<open>The dictionary \<open>transformations\<close> that \<open>clean_content\<close> builds for its first pass.\<close>

definition transformations :: "message \<Rightarrow> (str \<times> str) list" where
  "transformations self =
     (let t = dict_comp (\<lambda>c. lit ''<#'' @ channel_id c @ lit ''>'')
                (\<lambda>c. lit ''#'' @ channel_name c) (channel_mentions self);
          mention_transforms =
            dict_comp (\<lambda>mb. lit ''<@'' @ member_id mb @ lit ''>'')
              (\<lambda>mb. lit ''@'' @ display_name mb) (mentions self);
          second_mention_transforms =
            dict_comp (\<lambda>mb. lit ''<@!'' @ member_id mb @ lit ''>'')
              (\<lambda>mb. lit ''@'' @ display_name mb) (mentions self);
          t = dict_update t mention_transforms;
          t = dict_update t second_mention_transforms
      in if server self \<noteq> None then
           dict_update t
             (dict_comp (\<lambda>r. lit ''<@&'' @ role_id r @ lit ''>'')
                (\<lambda>r. lit ''@'' @ role_name r) (role_mentions self))
         else t)"

text \<open>U+200B, the zero-width space.\<close>

definition zwsp :: codepoint where
  "zwsp = 8203"

text \<open>The dictionary of the second pass.\<close>

definition everyone_here :: "(str \<times> str) list" where
  "everyone_here =
     [(lit ''@everyone'', lit ''@'' @ [zwsp] @ lit ''everyone''),
      (lit ''@here'', lit ''@'' @ [zwsp] @ lit ''here'')]"

definition clean_content_body :: "message \<Rightarrow> error + str" where
  "clean_content_body self =
     (let t = transformations self in
      case content self of
        None \<Rightarrow> Inl TypeError
      | Some s \<Rightarrow> Inr (re_sub everyone_here (re_sub t s)))"

definition clean_content :: "message \<Rightarrow> error + (str \<times> message)" where
  "clean_content =
     cached_slot_property cached_clean_content (\<lambda>v m. m\<lparr>cached_clean_content := v\<rparr>)
       clean_content_body"

text \<open>What an access returns, without the state behind it.\<close>

definition returned :: "error + ('a \<times> message) \<Rightarrow> error + 'a" where
  "returned r = (case r of Inl e \<Rightarrow> Inl e | Inr (v, m) \<Rightarrow> Inr v)"

subsection \<open>Sequencing\<close>

text \<open>
  A hydration followed by another one, by an access to a cached property (the state behind
  the access, or the value it returns), or by reading an attribute.
\<close>

definition then_update ::
  "(str option \<Rightarrow> error + datetime option) \<Rightarrow> payload \<Rightarrow> error + message \<Rightarrow> error + message" where
  "then_update parse_time data r =
     (case r of Inl e \<Rightarrow> Inl e | Inr m \<Rightarrow> update parse_time data m)"

definition then_access ::
  "(message \<Rightarrow> error + ('a \<times> message)) \<Rightarrow> error + message \<Rightarrow> error + message" where
  "then_access property r =
     (case r of
        Inl e \<Rightarrow> Inl e
      | Inr m \<Rightarrow> (case property m of Inl e \<Rightarrow> Inl e | Inr (v, m') \<Rightarrow> Inr m'))"

definition then_value ::
  "(message \<Rightarrow> error + ('a \<times> message)) \<Rightarrow> error + message \<Rightarrow> error + 'a" where
  "then_value property r =
     (case r of Inl e \<Rightarrow> Inl e | Inr m \<Rightarrow> returned (property m))"

definition then_attr :: "(message \<Rightarrow> 'a) \<Rightarrow> error + message \<Rightarrow> error + 'a" where
  "then_attr attr r = (case r of Inl e \<Rightarrow> Inl e | Inr m \<Rightarrow> Inr (attr m))"

section \<open>Example data\<close>

text \<open>A server with one member, two channels and one role, and payloads for it.\<close>

definition example_parse_time :: "str option \<Rightarrow> error + datetime option" where
  "example_parse_time t =
     (case t of
        None \<Rightarrow> Inr None
      | Some s \<Rightarrow>
          if s = lit ''2015-08-21T12:03:45+00:00'' then Inr (Some (Datetime 2015 8 21 12 3 45 0))
          else Inl ParseError)"

definition alice :: member where
  "alice = \<lparr>member_id = lit ''123'', display_name = lit ''Alice''\<rparr>"

definition general :: mentioned_channel where
  "general = \<lparr>channel_id = lit ''555'', channel_name = lit ''general''\<rparr>"

definition random :: mentioned_channel where
  "random = \<lparr>channel_id = lit ''777'', channel_name = lit ''random''\<rparr>"

definition mods :: role where
  "mods = \<lparr>role_id = lit ''7'', role_name = lit ''mods''\<rparr>"

definition example_server :: server where
  "example_server =
     \<lparr>get_member = (\<lambda>i. if i = Some (lit ''123'') then Some alice else None),
      get_channel = (\<lambda>i. if i = lit ''555'' then Some general
                          else if i = lit ''777'' then Some random else None),
      roles = [mods]\<rparr>"

definition bob :: user where
  "bob = \<lparr>user_id = Some (lit ''9''), username = Some (lit ''bob'')\<rparr>"

definition mention_of :: "string \<Rightarrow> user" where
  "mention_of i = \<lparr>user_id = Some (lit i), username = None\<rparr>"

text \<open>A payload with the given channel, fallback channel id, content, mentions and roles.\<close>

definition example_payload ::
  "channel option \<Rightarrow> str option \<Rightarrow> str option \<Rightarrow> user list \<Rightarrow> str list \<Rightarrow> payload" where
  "example_payload ch cid c ms rs =
     \<lparr>p_edited_timestamp = None, p_timestamp = Some (lit ''2015-08-21T12:03:45+00:00''),
      p_tts = Some False, p_content = c, p_mention_everyone = Some False, p_embeds = None,
      p_id = Some (lit ''1''), p_channel = ch, p_author = Some bob, p_nonce = None,
      p_attachments = None, p_channel_id = cid, p_mentions = Some ms,
      p_mention_roles = Some rs\<rparr>"

definition server_channel :: "channel option" where
  "server_channel = Some (Channel (lit ''42'') False (Some example_server))"

definition private_channel :: "channel option" where
  "private_channel = Some (Channel (lit ''43'') True None)"

text \<open>What hydration leaves of \<open>example_payload\<close> when the channel is private or unresolved.\<close>

definition example_private_message :: "channel option \<Rightarrow> str option \<Rightarrow> message" where
  "example_private_message ch c =
     \<lparr>edited_timestamp = None, timestamp = Some (Datetime 2015 8 21 12 3 45 0),
      tts = Some False, content = c, channel = ch, mention_everyone = Some False,
      embeds = None, msg_id = Some (lit ''1''), mentions = [], author = UserA bob,
      channel_mentions = [], server = None, cached_raw_mentions = None, attachments = None,
      cached_clean_content = None, cached_raw_channel_mentions = None, nonce = None,
      role_mentions = [], cached_raw_role_mentions = None\<rparr>"

text \<open>What hydration leaves of \<open>example_payload\<close> in \<open>server_channel\<close>.\<close>

definition example_server_message ::
  "str option \<Rightarrow> member list \<Rightarrow> mentioned_channel list \<Rightarrow> role list \<Rightarrow> message" where
  "example_server_message c ms cs rs =
     \<lparr>edited_timestamp = None, timestamp = Some (Datetime 2015 8 21 12 3 45 0),
      tts = Some False, content = c, channel = server_channel, mention_everyone = Some False,
      embeds = None, msg_id = Some (lit ''1''), mentions = ms, author = UserA bob,
      channel_mentions = cs, server = Some example_server, cached_raw_mentions = None,
      attachments = None, cached_clean_content = None, cached_raw_channel_mentions = None,
      nonce = None, role_mentions = rs, cached_raw_role_mentions = None\<rparr>"

definition example_content :: str where
  "example_content = lit ''hi <@123> <#555> <@&7>''"

section \<open>Properties of hydration\<close>

lemma handle_upgrades_keeps:
  "handle_upgrades cid s = Inr m \<Longrightarrow>
     content m = content s \<and> cached_raw_channel_mentions m = cached_raw_channel_mentions s"
  by (auto simp: handle_upgrades_def Let_def split: option.splits channel.splits if_splits)

lemma handle_upgrades_channel:
  "handle_upgrades cid s = Inr m \<Longrightarrow>
     (case channel s of
        None \<Rightarrow> server m = None \<and>
          channel m = (case cid of None \<Rightarrow> None | Some c \<Rightarrow> Some (Object c (Some True)))
      | Some (Object i a) \<Rightarrow> server m = None \<and> channel m = channel s
      | Some (Channel i priv srv) \<Rightarrow>
          channel m = channel s \<and> server m = (if priv then None else srv) \<and>
          (\<not> priv \<longrightarrow> srv \<noteq> None))"
  by (auto simp: handle_upgrades_def Let_def split: option.splits channel.splits if_splits)

lemma handle_mentions_keeps:
  "handle_mentions ms rs s = Inr m \<Longrightarrow>
     channel m = channel s \<and> server m = server s \<and> content m = content s"
  by (auto simp: handle_mentions_def Let_def raw_channel_mentions_def cached_slot_property_def
      re_findall_def split: option.splits sum.splits if_splits prod.splits)

lemma handle_mentions_private:
  "getattr_is_private (channel s) \<Longrightarrow>
     handle_mentions ms rs s =
       Inr (s\<lparr>mentions := [], channel_mentions := [], role_mentions := []\<rparr>)"
  by (simp add: handle_mentions_def)

lemma clear_cached_fields [simp]:
  "channel (clear_cached m) = channel m" "server (clear_cached m) = server m"
  "content (clear_cached m) = content m" "mentions (clear_cached m) = mentions m"
  "channel_mentions (clear_cached m) = channel_mentions m"
  "role_mentions (clear_cached m) = role_mentions m"
  "cached_raw_mentions (clear_cached m) = None"
  "cached_raw_channel_mentions (clear_cached m) = None"
  "cached_raw_role_mentions (clear_cached m) = None"
  "cached_clean_content (clear_cached m) = None"
  by (simp_all add: clear_cached_def)

text \<open>The steps of a hydration that succeeds.\<close>

lemma updateE:
  assumes "update pt data self = Inr m"
  obtains et t upgraded resolved where
    "pt (p_edited_timestamp data) = Inr et" "pt (p_timestamp data) = Inr t"
    "handle_upgrades (p_channel_id data)
       (self\<lparr>edited_timestamp := et, timestamp := t, tts := p_tts data,
             content := p_content data, mention_everyone := p_mention_everyone data,
             embeds := p_embeds data, msg_id := p_id data, channel := p_channel data,
             author := UserA (User (p_author data)), nonce := p_nonce data,
             attachments := p_attachments data\<rparr>) = Inr upgraded"
    "handle_mentions (case p_mentions data of None \<Rightarrow> [] | Some ms \<Rightarrow> ms)
       (case p_mention_roles data of None \<Rightarrow> [] | Some rs \<Rightarrow> rs) upgraded = Inr resolved"
    "m = clear_cached resolved"
  using assms unfolding update_def by (auto split: sum.splits)

text \<open>The hydration of the example payload in a private or unresolved channel.\<close>

lemma lit_simps [simp]:
  "lit [] = []" "lit (c # cs) = of_char c # lit cs"
  by (simp_all add: lit_def)

lemma update_example_private:
  "getattr_is_private ch \<Longrightarrow> ch \<noteq> None \<Longrightarrow>
   update example_parse_time (example_payload ch cid c ms rs) self =
     Inr (example_private_message ch c)"
  by (cases ch; cases "the ch"; cases self)
     (auto simp: update_def example_parse_time_def example_payload_def handle_upgrades_def
       handle_mentions_def clear_cached_def example_private_message_def User_def)

text \<open>
  C1. After a hydration, if the channel of the message is private, absent or an object
  without an \<open>is_private\<close> attribute (\<open>getattr(self.channel, 'is_private', True)\<close> is
  true), then \<open>mentions\<close>, \<open>channel_mentions\<close> and \<open>role_mentions\<close> are empty, whatever the
  content and the payload's \<open>mentions\<close> and \<open>mention_roles\<close> are.
\<close>

theorem private_channel_mentions_empty:
  assumes "update parse_time data self = Inr m" and "getattr_is_private (channel m)"
  shows "mentions m = [] \<and> channel_mentions m = [] \<and> role_mentions m = []"
proof -
  from assms(1) obtain upgraded resolved where
    hm: "handle_mentions (case p_mentions data of None \<Rightarrow> [] | Some ms \<Rightarrow> ms)
           (case p_mention_roles data of None \<Rightarrow> [] | Some rs \<Rightarrow> rs) upgraded = Inr resolved"
    and m: "m = clear_cached resolved"
    by (rule updateE)
  from hm have "channel resolved = channel upgraded"
    by (simp add: handle_mentions_keeps)
  with assms(2) m have "getattr_is_private (channel upgraded)"
    by simp
  with hm have "resolved = upgraded\<lparr>mentions := [], channel_mentions := [], role_mentions := []\<rparr>"
    by (simp add: handle_mentions_private)
  with m show ?thesis
    by simp
qed

theorem private_channel_mentions_empty_witness:
  "update example_parse_time
     (example_payload private_channel None (Some (lit ''hi <@123> <#555> <@&7>''))
        [mention_of ''123''] [lit ''7'']) unset
     = Inr (example_private_message private_channel (Some (lit ''hi <@123> <#555> <@&7>'')))
   \<and> getattr_is_private
       (channel (example_private_message private_channel (Some (lit ''hi <@123> <#555> <@&7>''))))
   \<and> mentions (example_private_message private_channel (Some (lit ''hi <@123> <#555> <@&7>''))) = []
   \<and> channel_mentions
       (example_private_message private_channel (Some (lit ''hi <@123> <#555> <@&7>''))) = []
   \<and> role_mentions
       (example_private_message private_channel (Some (lit ''hi <@123> <#555> <@&7>''))) = []"
proof -
  have u: "update example_parse_time
     (example_payload private_channel None (Some (lit ''hi <@123> <#555> <@&7>''))
        [mention_of ''123''] [lit ''7'']) unset
     = Inr (example_private_message private_channel (Some (lit ''hi <@123> <#555> <@&7>'')))"
    by (rule update_example_private) (simp_all add: private_channel_def)
  have p: "getattr_is_private
       (channel (example_private_message private_channel (Some (lit ''hi <@123> <#555> <@&7>''))))"
    by (simp add: example_private_message_def private_channel_def)
  from u p private_channel_mentions_empty [OF u p] show ?thesis
    by simp
qed

lemma update_example_none:
  "update example_parse_time (example_payload None cid c ms rs) self =
     Inr (example_private_message
            (case cid of None \<Rightarrow> None | Some i \<Rightarrow> Some (Object i (Some True))) c)"
  by (cases self; cases cid)
     (auto simp: update_def example_parse_time_def example_payload_def handle_upgrades_def
       handle_mentions_def clear_cached_def example_private_message_def User_def)

lemma update_example_content:
  "update example_parse_time
     (example_payload server_channel None (Some example_content) [mention_of ''123''] [lit ''7''])
     unset
   = Inr (example_server_message (Some example_content) [alice] [general] [mods])"
  by (simp add: update_def example_parse_time_def example_payload_def handle_upgrades_def
       handle_mentions_def clear_cached_def example_server_message_def User_def unset_def
       server_channel_def example_server_def bob_def resolve_members_def mention_of_def
       raw_channel_mentions_def cached_slot_property_def re_findall_def channel_pattern_def
       match_marker_def is_digit_def utils_get_role_def mods_def example_content_def)

section \<open>The cached properties after a hydration\<close>

lemma accessor_fresh:
  "cached_raw_mentions m = None \<Longrightarrow>
     returned (raw_mentions m) = re_findall user_pattern (content m)"
  "cached_raw_channel_mentions m = None \<Longrightarrow>
     returned (raw_channel_mentions m) = re_findall channel_pattern (content m)"
  "cached_raw_role_mentions m = None \<Longrightarrow>
     returned (raw_role_mentions m) = re_findall role_pattern (content m)"
  "cached_clean_content m = None \<Longrightarrow> returned (clean_content m) = clean_content_body m"
  by (auto simp: returned_def raw_mentions_def raw_channel_mentions_def raw_role_mentions_def
      clean_content_def cached_slot_property_def split: sum.splits)

lemma update_clears:
  assumes "update pt data self = Inr m"
  shows "cached_raw_mentions m = None \<and> cached_raw_channel_mentions m = None \<and>
         cached_raw_role_mentions m = None \<and> cached_clean_content m = None"
  using assms by (elim updateE) simp

lemma update_content:
  assumes "update pt data self = Inr m"
  shows "content m = p_content data"
proof -
  from assms obtain et t upgraded resolved where
    hu: "handle_upgrades (p_channel_id data)
       (self\<lparr>edited_timestamp := et, timestamp := t, tts := p_tts data,
             content := p_content data, mention_everyone := p_mention_everyone data,
             embeds := p_embeds data, msg_id := p_id data, channel := p_channel data,
             author := UserA (User (p_author data)), nonce := p_nonce data,
             attachments := p_attachments data\<rparr>) = Inr upgraded"
    and hm: "handle_mentions (case p_mentions data of None \<Rightarrow> [] | Some ms \<Rightarrow> ms)
       (case p_mention_roles data of None \<Rightarrow> [] | Some rs \<Rightarrow> rs) upgraded = Inr resolved"
    and m: "m = clear_cached resolved"
    by (rule updateE)
  from hu have "content upgraded = p_content data"
    by (simp add: handle_upgrades_keeps)
  with hm m show ?thesis
    by (simp add: handle_mentions_keeps)
qed

lemma hydrated_accessors:
  assumes "update pt data self = Inr m"
  shows "returned (raw_mentions m) = re_findall user_pattern (content m)"
    and "returned (raw_channel_mentions m) = re_findall channel_pattern (content m)"
    and "returned (raw_role_mentions m) = re_findall role_pattern (content m)"
    and "returned (clean_content m) = clean_content_body m"
  using update_clears [OF assms] by (simp_all add: accessor_fresh)

lemma body_total:
  "(\<exists>v. re_findall mt c = Inr v) \<longleftrightarrow> c \<noteq> None"
  "(\<exists>v. clean_content_body m = Inr v) \<longleftrightarrow> content m \<noteq> None"
  "c = None \<Longrightarrow> re_findall mt c = Inl TypeError"
  "content m = None \<Longrightarrow> clean_content_body m = Inl TypeError"
  by (auto simp: re_findall_def clean_content_body_def Let_def split: option.splits)

text \<open>
  C5. \<open>raw_mentions\<close>, \<open>raw_channel_mentions\<close> and \<open>raw_role_mentions\<close> depend on the
  content alone: two hydrated messages with the same content return the same three lists,
  whatever their channels, servers and rosters are, and each list is what its pattern finds
  in the content.
\<close>

theorem raw_lists_from_content_alone:
  assumes "update pt1 d1 s1 = Inr m1" and "update pt2 d2 s2 = Inr m2"
    and "content m1 = content m2"
  shows "returned (raw_mentions m1) = returned (raw_mentions m2) \<and>
         returned (raw_channel_mentions m1) = returned (raw_channel_mentions m2) \<and>
         returned (raw_role_mentions m1) = returned (raw_role_mentions m2) \<and>
         returned (raw_mentions m1) = re_findall user_pattern (content m1) \<and>
         returned (raw_channel_mentions m1) = re_findall channel_pattern (content m1) \<and>
         returned (raw_role_mentions m1) = re_findall role_pattern (content m1)"
  using assms(3)
  by (simp add: hydrated_accessors [OF assms(1)] hydrated_accessors [OF assms(2)])

theorem raw_lists_from_content_alone_witness:
  "update example_parse_time
     (example_payload private_channel None (Some example_content) [mention_of ''123''] [lit ''7''])
     unset = Inr (example_private_message private_channel (Some example_content))
   \<and> update example_parse_time
     (example_payload server_channel None (Some example_content) [mention_of ''123''] [lit ''7''])
     unset = Inr (example_server_message (Some example_content) [alice] [general] [mods])
   \<and> content (example_private_message private_channel (Some example_content))
       = content (example_server_message (Some example_content) [alice] [general] [mods])
   \<and> mentions (example_private_message private_channel (Some example_content))
       \<noteq> mentions (example_server_message (Some example_content) [alice] [general] [mods])
   \<and> returned (raw_mentions (example_private_message private_channel (Some example_content)))
       = returned (raw_mentions
           (example_server_message (Some example_content) [alice] [general] [mods]))
   \<and> returned (raw_channel_mentions (example_private_message private_channel (Some example_content)))
       = returned (raw_channel_mentions
           (example_server_message (Some example_content) [alice] [general] [mods]))
   \<and> returned (raw_role_mentions (example_private_message private_channel (Some example_content)))
       = returned (raw_role_mentions
           (example_server_message (Some example_content) [alice] [general] [mods]))"
proof -
  have u1: "update example_parse_time
     (example_payload private_channel None (Some example_content) [mention_of ''123''] [lit ''7''])
     unset = Inr (example_private_message private_channel (Some example_content))"
    by (rule update_example_private) (simp_all add: private_channel_def)
  have c: "content (example_private_message private_channel (Some example_content))
       = content (example_server_message (Some example_content) [alice] [general] [mods])"
    by (simp add: example_private_message_def example_server_message_def)
  have d: "mentions (example_private_message private_channel (Some example_content))
       \<noteq> mentions (example_server_message (Some example_content) [alice] [general] [mods])"
    by (simp add: example_private_message_def example_server_message_def)
  from raw_lists_from_content_alone [OF u1 update_example_content c] u1 update_example_content c d
  show ?thesis
    by simp
qed

section \<open>The channel and the server of a hydrated message\<close>

lemma update_private:
  assumes "pt (p_edited_timestamp data) = Inr et" and "pt (p_timestamp data) = Inr t"
    and "getattr_is_private (p_channel data)"
  shows "\<exists>m. update pt data self = Inr m \<and> getattr_is_private (channel m) \<and> server m = None \<and>
           channel m =
             (case p_channel data of
                None \<Rightarrow> (case p_channel_id data of
                           None \<Rightarrow> None
                         | Some c \<Rightarrow> Some (Object c (Some True)))
              | Some ch \<Rightarrow> Some ch)"
  using assms
  by (cases "p_channel data"; cases "the (p_channel data)"; cases "p_channel_id data")
     (auto simp: update_def handle_upgrades_def handle_mentions_def split: option.splits)

lemma update_private_fails:
  assumes "update pt data self = Inl e" and "getattr_is_private (p_channel data)"
  shows "pt (p_edited_timestamp data) = Inl e \<or> pt (p_timestamp data) = Inl e"
proof (cases "pt (p_edited_timestamp data)")
  case (Inl a)
  with assms(1) show ?thesis
    by (simp add: update_def)
next
  case et: (Inr et)
  show ?thesis
  proof (cases "pt (p_timestamp data)")
    case (Inl a)
    with assms(1) et show ?thesis
      by (simp add: update_def)
  next
    case (Inr t)
    with update_private [OF et Inr assms(2), of self] assms(1) show ?thesis
      by auto
  qed
qed

lemma update_server:
  assumes "update pt data self = Inr m"
  shows "(server m \<noteq> None \<longrightarrow> (\<exists>i. channel m = Some (Channel i False (server m)))) \<and>
         (\<forall>i srv. channel m = Some (Channel i False srv) \<longrightarrow> server m = srv \<and> srv \<noteq> None)"
proof -
  from assms obtain et t upgraded resolved where
    hu: "handle_upgrades (p_channel_id data)
       (self\<lparr>edited_timestamp := et, timestamp := t, tts := p_tts data,
             content := p_content data, mention_everyone := p_mention_everyone data,
             embeds := p_embeds data, msg_id := p_id data, channel := p_channel data,
             author := UserA (User (p_author data)), nonce := p_nonce data,
             attachments := p_attachments data\<rparr>) = Inr upgraded"
    and hm: "handle_mentions (case p_mentions data of None \<Rightarrow> [] | Some ms \<Rightarrow> ms)
       (case p_mention_roles data of None \<Rightarrow> [] | Some rs \<Rightarrow> rs) upgraded = Inr resolved"
    and m: "m = clear_cached resolved"
    by (rule updateE)
  from hm m have k: "channel m = channel upgraded" "server m = server upgraded"
    by (simp_all add: handle_mentions_keeps)
  from handle_upgrades_channel [OF hu] show ?thesis
    unfolding k by (auto split: option.splits channel.splits if_splits)
qed

text \<open>
  C9. A payload without a channel but with a \<open>channel_id\<close> hydrates whenever its two
  timestamps parse (a failure of such a hydration is a failure of \<open>utils.parse_time\<close>):
  the channel becomes an \<open>Object\<close> with that id and \<open>is_private\<close> set to true, and the
  server is \<open>None\<close>. After any hydration the server is not \<open>None\<close> only if the channel is
  a real channel that is not private, and for such a channel the server is the channel's.
\<close>

theorem placeholder_channel_and_server:
  "(parse_time (p_edited_timestamp data) = Inr et \<and> parse_time (p_timestamp data) = Inr t \<and>
    p_channel data = None \<and> p_channel_id data = Some cid \<longrightarrow>
      (\<exists>m. update parse_time data self = Inr m \<and>
           channel m = Some (Object cid (Some True)) \<and> server m = None)) \<and>
   (p_channel data2 = None \<and> update parse_time2 data2 self2 = Inl e \<longrightarrow>
      parse_time2 (p_edited_timestamp data2) = Inl e \<or> parse_time2 (p_timestamp data2) = Inl e) \<and>
   (update parse_time3 data3 self3 = Inr m3 \<longrightarrow>
      (server m3 \<noteq> None \<longrightarrow> (\<exists>i. channel m3 = Some (Channel i False (server m3)))) \<and>
      (\<forall>i srv. channel m3 = Some (Channel i False srv) \<longrightarrow> server m3 = srv))"
proof (intro conjI impI)
  assume a: "parse_time (p_edited_timestamp data) = Inr et \<and> parse_time (p_timestamp data) = Inr t \<and>
    p_channel data = None \<and> p_channel_id data = Some cid"
  then have "getattr_is_private (p_channel data)"
    by simp
  with a update_private [of parse_time data et t self]
  show "\<exists>m. update parse_time data self = Inr m \<and>
           channel m = Some (Object cid (Some True)) \<and> server m = None"
    by auto
next
  assume "p_channel data2 = None \<and> update parse_time2 data2 self2 = Inl e"
  then show "parse_time2 (p_edited_timestamp data2) = Inl e \<or> parse_time2 (p_timestamp data2) = Inl e"
    using update_private_fails [of parse_time2 data2 self2 e] by simp
next
  assume u: "update parse_time3 data3 self3 = Inr m3"
  show "server m3 \<noteq> None \<Longrightarrow> \<exists>i. channel m3 = Some (Channel i False (server m3))"
    using update_server [OF u] by blast
  show "\<forall>i srv. channel m3 = Some (Channel i False srv) \<longrightarrow> server m3 = srv"
    using update_server [OF u] by blast
qed

theorem placeholder_channel_and_server_witness:
  "example_parse_time
     (p_edited_timestamp (example_payload None (Some (lit ''42'')) (Some example_content)
        [mention_of ''123''] [lit ''7''])) = Inr None
   \<and> example_parse_time
     (p_timestamp (example_payload None (Some (lit ''42'')) (Some example_content)
        [mention_of ''123''] [lit ''7''])) = Inr (Some (Datetime 2015 8 21 12 3 45 0))
   \<and> p_channel (example_payload None (Some (lit ''42'')) (Some example_content)
        [mention_of ''123''] [lit ''7'']) = None
   \<and> p_channel_id (example_payload None (Some (lit ''42'')) (Some example_content)
        [mention_of ''123''] [lit ''7'']) = Some (lit ''42'')
   \<and> update example_parse_time
        (example_payload None (Some (lit ''42'')) (Some example_content)
           [mention_of ''123''] [lit ''7'']) unset
       = Inr (example_private_message (Some (Object (lit ''42'') (Some True)))
                (Some example_content))
   \<and> update example_parse_time
        ((example_payload None (Some (lit ''42'')) (Some example_content) [] [])
           \<lparr>p_timestamp := Some (lit ''yesterday'')\<rparr>) unset = Inl ParseError
   \<and> example_parse_time (Some (lit ''yesterday'')) = Inl ParseError
   \<and> update example_parse_time
        (example_payload server_channel None (Some example_content) [mention_of ''123''] [lit ''7''])
        unset = Inr (example_server_message (Some example_content) [alice] [general] [mods])
   \<and> server (example_server_message (Some example_content) [alice] [general] [mods])
       = Some example_server
   \<and> channel (example_server_message (Some example_content) [alice] [general] [mods])
       = Some (Channel (lit ''42'') False (Some example_server))"
proof -
  have h1: "example_parse_time
     (p_edited_timestamp (example_payload None (Some (lit ''42'')) (Some example_content)
        [mention_of ''123''] [lit ''7''])) = Inr None"
    by (simp add: example_payload_def example_parse_time_def)
  have h2: "example_parse_time
     (p_timestamp (example_payload None (Some (lit ''42'')) (Some example_content)
        [mention_of ''123''] [lit ''7''])) = Inr (Some (Datetime 2015 8 21 12 3 45 0))"
    by (simp add: example_payload_def example_parse_time_def)
  have h3: "p_channel (example_payload None (Some (lit ''42'')) (Some example_content)
        [mention_of ''123''] [lit ''7'']) = None"
    by (simp add: example_payload_def)
  have h4: "p_channel_id (example_payload None (Some (lit ''42'')) (Some example_content)
        [mention_of ''123''] [lit ''7'']) = Some (lit ''42'')"
    by (simp add: example_payload_def)
  have h5: "p_channel ((example_payload None (Some (lit ''42'')) (Some example_content) [] [])
           \<lparr>p_timestamp := Some (lit ''yesterday'')\<rparr>) = None"
    by (simp add: example_payload_def)
  have h6: "update example_parse_time
        ((example_payload None (Some (lit ''42'')) (Some example_content) [] [])
           \<lparr>p_timestamp := Some (lit ''yesterday'')\<rparr>) unset = Inl ParseError"
    by (simp add: update_def example_payload_def example_parse_time_def)
  have h7: "example_parse_time (Some (lit ''yesterday'')) = Inl ParseError"
    by (simp add: example_parse_time_def)
  note t = placeholder_channel_and_server
    [of example_parse_time
        "example_payload None (Some (lit ''42'')) (Some example_content) [mention_of ''123''] [lit ''7'']"
        None "Some (Datetime 2015 8 21 12 3 45 0)" "lit ''42''" unset
        "(example_payload None (Some (lit ''42'')) (Some example_content) [] [])
           \<lparr>p_timestamp := Some (lit ''yesterday'')\<rparr>"
        example_parse_time unset ParseError
        example_parse_time
        "example_payload server_channel None (Some example_content) [mention_of ''123''] [lit ''7'']"
        unset "example_server_message (Some example_content) [alice] [general] [mods]"]
  from t h1 h2 h3 h4 h5 h6 h7 update_example_content
    update_example_none [of "Some (lit ''42'')" "Some example_content" "[mention_of ''123'']"
      "[lit ''7'']" unset]
  show ?thesis
    by (simp add: example_server_message_def server_channel_def)
qed

text \<open>
  C10. A payload without \<open>content\<close> hydrates in a private or unresolved channel (when its
  timestamps parse), with \<open>content\<close> set to \<open>None\<close>; reading \<open>raw_mentions\<close>,
  \<open>raw_channel_mentions\<close>, \<open>raw_role_mentions\<close> or \<open>clean_content\<close> then raises
  \<open>TypeError\<close>. After any hydration each of the four returns a value exactly when
  \<open>content\<close> is a string.
\<close>

theorem derived_properties_need_content:
  "(parse_time (p_edited_timestamp data) = Inr et \<and> parse_time (p_timestamp data) = Inr t \<and>
    p_content data = None \<and> getattr_is_private (p_channel data) \<longrightarrow>
      (\<exists>m. update parse_time data self = Inr m \<and> content m = None \<and>
         returned (raw_mentions m) = Inl TypeError \<and>
         returned (raw_channel_mentions m) = Inl TypeError \<and>
         returned (raw_role_mentions m) = Inl TypeError \<and>
         returned (clean_content m) = Inl TypeError)) \<and>
   (update parse_time2 data2 self2 = Inr m2 \<longrightarrow>
      ((\<exists>v. returned (raw_mentions m2) = Inr v) \<longleftrightarrow> content m2 \<noteq> None) \<and>
      ((\<exists>v. returned (raw_channel_mentions m2) = Inr v) \<longleftrightarrow> content m2 \<noteq> None) \<and>
      ((\<exists>v. returned (raw_role_mentions m2) = Inr v) \<longleftrightarrow> content m2 \<noteq> None) \<and>
      ((\<exists>v. returned (clean_content m2) = Inr v) \<longleftrightarrow> content m2 \<noteq> None))"
proof (intro conjI impI)
  assume a: "parse_time (p_edited_timestamp data) = Inr et \<and> parse_time (p_timestamp data) = Inr t \<and>
    p_content data = None \<and> getattr_is_private (p_channel data)"
  then obtain m where u: "update parse_time data self = Inr m"
    using update_private [of parse_time data et t self] by blast
  from u a have c: "content m = None"
    by (simp add: update_content)
  show "\<exists>m. update parse_time data self = Inr m \<and> content m = None \<and>
         returned (raw_mentions m) = Inl TypeError \<and>
         returned (raw_channel_mentions m) = Inl TypeError \<and>
         returned (raw_role_mentions m) = Inl TypeError \<and>
         returned (clean_content m) = Inl TypeError"
    using u c by (auto simp: hydrated_accessors [OF u] body_total)
next
  assume u: "update parse_time2 data2 self2 = Inr m2"
  show "(\<exists>v. returned (raw_mentions m2) = Inr v) \<longleftrightarrow> content m2 \<noteq> None"
    by (simp only: hydrated_accessors [OF u] body_total)
  show "(\<exists>v. returned (raw_channel_mentions m2) = Inr v) \<longleftrightarrow> content m2 \<noteq> None"
    by (simp only: hydrated_accessors [OF u] body_total)
  show "(\<exists>v. returned (raw_role_mentions m2) = Inr v) \<longleftrightarrow> content m2 \<noteq> None"
    by (simp only: hydrated_accessors [OF u] body_total)
  show "(\<exists>v. returned (clean_content m2) = Inr v) \<longleftrightarrow> content m2 \<noteq> None"
    by (simp only: hydrated_accessors [OF u] body_total)
qed

theorem derived_properties_need_content_witness:
  "example_parse_time
     (p_edited_timestamp (example_payload private_channel None None [mention_of ''123''] []))
     = Inr None
   \<and> example_parse_time
     (p_timestamp (example_payload private_channel None None [mention_of ''123''] []))
     = Inr (Some (Datetime 2015 8 21 12 3 45 0))
   \<and> p_content (example_payload private_channel None None [mention_of ''123''] []) = None
   \<and> getattr_is_private
       (p_channel (example_payload private_channel None None [mention_of ''123''] []))
   \<and> update example_parse_time
        (example_payload private_channel None None [mention_of ''123''] []) unset
       = Inr (example_private_message private_channel None)
   \<and> returned (raw_mentions (example_private_message private_channel None)) = Inl TypeError
   \<and> returned (raw_channel_mentions (example_private_message private_channel None))
       = Inl TypeError
   \<and> returned (raw_role_mentions (example_private_message private_channel None)) = Inl TypeError
   \<and> returned (clean_content (example_private_message private_channel None)) = Inl TypeError
   \<and> update example_parse_time
        (example_payload private_channel None (Some example_content) [] []) unset
       = Inr (example_private_message private_channel (Some example_content))
   \<and> (\<exists>v. returned (raw_mentions
             (example_private_message private_channel (Some example_content))) = Inr v)
   \<and> (\<exists>v. returned (clean_content
             (example_private_message private_channel (Some example_content))) = Inr v)"
proof -
  have h1: "example_parse_time
     (p_edited_timestamp (example_payload private_channel None None [mention_of ''123''] []))
     = Inr None"
    by (simp add: example_payload_def example_parse_time_def)
  have h2: "example_parse_time
     (p_timestamp (example_payload private_channel None None [mention_of ''123''] []))
     = Inr (Some (Datetime 2015 8 21 12 3 45 0))"
    by (simp add: example_payload_def example_parse_time_def)
  have h3: "p_content (example_payload private_channel None None [mention_of ''123''] []) = None"
    by (simp add: example_payload_def)
  have h4: "getattr_is_private
       (p_channel (example_payload private_channel None None [mention_of ''123''] []))"
    by (simp add: example_payload_def private_channel_def)
  have u1: "update example_parse_time
        (example_payload private_channel None None [mention_of ''123''] []) unset
       = Inr (example_private_message private_channel None)"
    by (rule update_example_private) (simp_all add: private_channel_def)
  have u2: "update example_parse_time
        (example_payload private_channel None (Some example_content) [] []) unset
       = Inr (example_private_message private_channel (Some example_content))"
    by (rule update_example_private) (simp_all add: private_channel_def)
  have c: "content (example_private_message private_channel (Some example_content)) \<noteq> None"
    by (simp add: example_private_message_def)
  note t = derived_properties_need_content
    [of example_parse_time "example_payload private_channel None None [mention_of ''123''] []"
        None "Some (Datetime 2015 8 21 12 3 45 0)" unset
        example_parse_time "example_payload private_channel None (Some example_content) [] []"
        unset "example_private_message private_channel (Some example_content)"]
  from t h1 h2 h3 h4 u1 u2 c show ?thesis
    by simp
qed

section \<open>Re-hydration and the cache of \<open>raw_channel_mentions\<close>\<close>

lemmas hydration_defs =
  update_def init_def example_parse_time_def example_payload_def handle_upgrades_def
  handle_mentions_def clear_cached_def User_def unset_def server_channel_def example_server_def
  bob_def resolve_members_def mention_of_def raw_channel_mentions_def cached_slot_property_def
  re_findall_def channel_pattern_def match_marker_def is_digit_def utils_get_role_def

lemmas access_defs =
  then_update_def then_access_def then_attr_def then_value_def returned_def
  raw_mentions_def raw_role_mentions_def clean_content_def clean_content_body_def
  user_pattern_def role_pattern_def transformations_def dict_comp_def dict_update_def
  re_sub_def keys_pattern_def dict_get_def everyone_here_def zwsp_def

text \<open>
  \<open>_update\<close> calls \<open>_handle_mentions\<close> before it deletes the cache slots. So the
  \<open>raw_channel_mentions\<close> that \<open>_handle_mentions\<close> reads is the list that is in the slot
  when \<open>_update\<close> starts, if there is one, and only otherwise the list of the new content.
\<close>

lemma update_reads_cached_channel_ids:
  assumes "update pt data self = Inr m" and "server m = Some s"
  shows "channel_mentions m =
     append_found (get_channel s)
       (case cached_raw_channel_mentions self of
          Some ids \<Rightarrow> ids
        | None \<Rightarrow> (case p_content data of
                     Some c \<Rightarrow> scan_findall channel_pattern c
                   | None \<Rightarrow> [])) []"
proof -
  from assms(1) obtain et t upgraded resolved where
    hu: "handle_upgrades (p_channel_id data)
       (self\<lparr>edited_timestamp := et, timestamp := t, tts := p_tts data,
             content := p_content data, mention_everyone := p_mention_everyone data,
             embeds := p_embeds data, msg_id := p_id data, channel := p_channel data,
             author := UserA (User (p_author data)), nonce := p_nonce data,
             attachments := p_attachments data\<rparr>) = Inr upgraded"
    and hm: "handle_mentions (case p_mentions data of None \<Rightarrow> [] | Some ms \<Rightarrow> ms)
       (case p_mention_roles data of None \<Rightarrow> [] | Some rs \<Rightarrow> rs) upgraded = Inr resolved"
    and m: "m = clear_cached resolved"
    by (rule updateE)
  from handle_upgrades_keeps [OF hu]
  have k: "content upgraded = p_content data"
    "cached_raw_channel_mentions upgraded = cached_raw_channel_mentions self"
    by simp_all
  from hm m assms(2) have s: "server upgraded = Some s"
    by (simp add: handle_mentions_keeps)
  from handle_upgrades_channel [OF hu] s have "\<not> getattr_is_private (channel upgraded)"
    by (auto split: option.splits channel.splits if_splits)
  with hm s k m show ?thesis
    by (auto simp: handle_mentions_def Let_def raw_channel_mentions_def cached_slot_property_def
        re_findall_def split: if_splits sum.splits option.splits)
qed

text \<open>The two stages of \<open>_update\<close> as record updates.\<close>

lemma handle_upgrades_explicit:
  "handle_upgrades cid x =
     (case channel x of
        Some (Object i a) \<Rightarrow> Inr (x\<lparr>server := None\<rparr>)
      | None \<Rightarrow>
          Inr (x\<lparr>channel := (case cid of Some c \<Rightarrow> Some (Object c (Some True)) | None \<Rightarrow> None),
                 server := None\<rparr>)
      | Some (Channel i priv srv) \<Rightarrow>
          if priv then Inr (x\<lparr>server := None\<rparr>)
          else (case srv of
                  None \<Rightarrow> Inl AttributeError
                | Some s \<Rightarrow>
                    Inr (x\<lparr>author := (case get_member s (author_id (author x)) of
                                         Some found \<Rightarrow> MemberA found
                                       | None \<Rightarrow> author x),
                           server := srv\<rparr>)))"
  by (cases x) (simp add: handle_upgrades_def split: option.split channel.split)

lemma handle_mentions_explicit:
  "handle_mentions ms rs x =
     (if getattr_is_private (channel x)
      then Inr (x\<lparr>mentions := [], channel_mentions := [], role_mentions := []\<rparr>)
      else
        case (if channel x \<noteq> None then resolve_members (server x) ms else Inr []) of
          Inl e \<Rightarrow> Inl e
        | Inr found \<Rightarrow>
            (case server x of
               None \<Rightarrow> Inr (x\<lparr>mentions := found, channel_mentions := [], role_mentions := []\<rparr>)
             | Some s \<Rightarrow>
                 (case (case cached_raw_channel_mentions x of
                          Some v \<Rightarrow> Inr v
                        | None \<Rightarrow> re_findall channel_pattern (content x)) of
                    Inl e \<Rightarrow> Inl e
                  | Inr ids \<Rightarrow>
                      Inr (x\<lparr>mentions := found,
                             channel_mentions := append_found (get_channel s) ids [],
                             cached_raw_channel_mentions := Some ids,
                             role_mentions := append_found (utils_get_role (roles s)) rs []\<rparr>))))"
  by (cases x)
     (simp add: handle_mentions_def raw_channel_mentions_def cached_slot_property_def
        split: option.split sum.split)

text \<open>
  Of the state before it, a hydration reads the slot of \<open>raw_channel_mentions\<close> and
  nothing else.
\<close>

lemma update_depends_on_cache_only:
  assumes "cached_raw_channel_mentions s1 = cached_raw_channel_mentions s2"
  shows "update pt data s1 = update pt data s2"
proof (cases "pt (p_edited_timestamp data)")
  case (Inl a)
  then show ?thesis
    by (simp add: update_def)
next
  case et: (Inr et)
  show ?thesis
  proof (cases "pt (p_timestamp data)")
    case (Inl a)
    with et show ?thesis
      by (simp add: update_def)
  next
    case t: (Inr t)
    obtain a1 a2 a3 a4 a5 a6 a7 a8 a9 a10 a11 a12 a13 a14 a15 a16 a17 a18 a19
      where s1: "s1 = \<lparr>edited_timestamp = a1, timestamp = a2, tts = a3, content = a4,
        channel = a5, mention_everyone = a6, embeds = a7, msg_id = a8, mentions = a9,
        author = a10, channel_mentions = a11, server = a12, cached_raw_mentions = a13,
        attachments = a14, cached_clean_content = a15, cached_raw_channel_mentions = a16,
        nonce = a17, role_mentions = a18, cached_raw_role_mentions = a19\<rparr>"
      by (cases s1) auto
    obtain b1 b2 b3 b4 b5 b6 b7 b8 b9 b10 b11 b12 b13 b14 b15 b16 b17 b18 b19
      where s2: "s2 = \<lparr>edited_timestamp = b1, timestamp = b2, tts = b3, content = b4,
        channel = b5, mention_everyone = b6, embeds = b7, msg_id = b8, mentions = b9,
        author = b10, channel_mentions = b11, server = b12, cached_raw_mentions = b13,
        attachments = b14, cached_clean_content = b15, cached_raw_channel_mentions = b16,
        nonce = b17, role_mentions = b18, cached_raw_role_mentions = b19\<rparr>"
      by (cases s2) auto
    from assms s1 s2 have c: "a16 = b16"
      by simp
    show ?thesis
      unfolding update_def et t s1 s2 c
      by (simp add: handle_upgrades_explicit handle_mentions_explicit clear_cached_def
         split: option.split channel.split sum.split)
  qed
qed

text \<open>
  Hence a second hydration with the same payload changes nothing when the first one
  started with an empty slot, as it does in \<open>__init__\<close>.
\<close>

lemma update_twice_from_empty_slot:
  assumes "cached_raw_channel_mentions self = None" and "update pt data self = Inr m"
  shows "update pt data m = Inr m"
  using update_depends_on_cache_only [of self m pt data] update_clears [OF assms(2)] assms
  by simp

text \<open>
  The example: a message with content \<open><#555>\<close>, whose \<open>raw_channel_mentions\<close> is read and
  then is in its slot, is hydrated with the content \<open><#777>\<close>, and then once more.
\<close>

lemma init_then_read_channel_ids:
  "then_access raw_channel_mentions
     (init example_parse_time (example_payload server_channel None (Some (lit ''<#555>'')) [] []))
   = Inr ((example_server_message (Some (lit ''<#555>'')) [] [general] [])
        \<lparr>cached_raw_channel_mentions := Some [lit ''555'']\<rparr>)"
  by (simp add: hydration_defs then_access_def example_server_message_def)

lemma update_after_read:
  "update example_parse_time (example_payload server_channel None (Some (lit ''<#777>'')) [] [])
     ((example_server_message (Some (lit ''<#555>'')) [] [general] [])
        \<lparr>cached_raw_channel_mentions := Some [lit ''555'']\<rparr>)
   = Inr (example_server_message (Some (lit ''<#777>'')) [] [general] [])"
  by (simp add: hydration_defs example_server_message_def)

lemma update_once_more:
  "update example_parse_time (example_payload server_channel None (Some (lit ''<#777>'')) [] [])
     (example_server_message (Some (lit ''<#777>'')) [] [general] [])
   = Inr (example_server_message (Some (lit ''<#777>'')) [] [random] [])"
  by (simp add: hydration_defs example_server_message_def)

text \<open>
  C2 (the code differs). The claim: every hydration invalidates the cached properties before
  it resolves the mentions, so that \<open>channel_mentions\<close> always comes from the ids in the new
  content, also when \<open>raw_channel_mentions\<close> was read between two hydrations. The code
  clears the slots after \<open>_handle_mentions\<close>: after the read, the hydration with the
  content \<open><#777>\<close> leaves the content \<open><#777>\<close>, for which \<open>raw_channel_mentions\<close> returns
  the id 777, and yet \<open>channel_mentions\<close> holds the channel 555 of the previous content.
\<close>

theorem rehydration_resolves_cached_channel_ids:
  "then_attr content
     (then_update example_parse_time
        (example_payload server_channel None (Some (lit ''<#777>'')) [] [])
        (then_access raw_channel_mentions
           (init example_parse_time
              (example_payload server_channel None (Some (lit ''<#555>'')) [] []))))
     = Inr (Some (lit ''<#777>''))
   \<and> then_value raw_channel_mentions
     (then_update example_parse_time
        (example_payload server_channel None (Some (lit ''<#777>'')) [] [])
        (then_access raw_channel_mentions
           (init example_parse_time
              (example_payload server_channel None (Some (lit ''<#555>'')) [] []))))
     = Inr [lit ''777'']
   \<and> then_attr channel_mentions
     (then_update example_parse_time
        (example_payload server_channel None (Some (lit ''<#777>'')) [] [])
        (then_access raw_channel_mentions
           (init example_parse_time
              (example_payload server_channel None (Some (lit ''<#555>'')) [] []))))
     = Inr [general]
   \<and> get_channel example_server (lit ''777'') = Some random
   \<and> channel_id general = lit ''555''"
  unfolding init_then_read_channel_ids
  by (simp add: then_update_def update_after_read then_attr_def then_value_def returned_def
     example_server_message_def example_server_def general_def hydration_defs)

text \<open>
  C6 (the code differs). The claim: two hydrations with the same payload leave the state
  that one leaves. In the example above the first hydration with the content \<open><#777>\<close>
  resolves the cached id 555, the second one the id 777 of the content.
\<close>

theorem rehydration_twice_differs_from_once:
  "then_attr channel_mentions
     (then_update example_parse_time
        (example_payload server_channel None (Some (lit ''<#777>'')) [] [])
        (then_access raw_channel_mentions
           (init example_parse_time
              (example_payload server_channel None (Some (lit ''<#555>'')) [] []))))
     = Inr [general]
   \<and> then_attr channel_mentions
     (then_update example_parse_time
        (example_payload server_channel None (Some (lit ''<#777>'')) [] [])
        (then_update example_parse_time
           (example_payload server_channel None (Some (lit ''<#777>'')) [] [])
           (then_access raw_channel_mentions
              (init example_parse_time
                 (example_payload server_channel None (Some (lit ''<#555>'')) [] [])))))
     = Inr [random]
   \<and> general \<noteq> random"
proof -
  have once: "then_update example_parse_time
        (example_payload server_channel None (Some (lit ''<#777>'')) [] [])
        (then_access raw_channel_mentions
           (init example_parse_time
              (example_payload server_channel None (Some (lit ''<#555>'')) [] [])))
     = Inr (example_server_message (Some (lit ''<#777>'')) [] [general] [])"
    unfolding init_then_read_channel_ids then_update_def sum.case by (rule update_after_read)
  have twice: "then_update example_parse_time
        (example_payload server_channel None (Some (lit ''<#777>'')) [] [])
        (Inr (example_server_message (Some (lit ''<#777>'')) [] [general] []))
     = Inr (example_server_message (Some (lit ''<#777>'')) [] [random] [])"
    unfolding then_update_def sum.case by (rule update_once_more)
  show ?thesis
    unfolding once twice
    by (simp add: then_attr_def example_server_message_def general_def random_def)
qed

section \<open>Scanning a concatenation\<close>

text \<open>
  The scan of \<open>xs @ ys\<close> is the scan of \<open>xs\<close> followed by the scan of \<open>ys\<close> when no match
  that starts in \<open>xs\<close> sees \<open>ys\<close>; it skips \<open>xs\<close> when nothing matches there.
\<close>

lemma scan_sub_append:
  assumes "\<And>u. suffix u xs \<Longrightarrow> u \<noteq> [] \<Longrightarrow>
             mt (u @ ys) = mt u \<and> (\<forall>r n. mt u = Some (r, n) \<longrightarrow> 1 \<le> n \<and> n \<le> length u)"
  shows "scan_sub mt (xs @ ys) = scan_sub mt xs @ scan_sub mt ys"
  using assms
proof (induction mt xs rule: scan_sub.induct)
  case (1 mt)
  show ?case by simp
next
  case (2 mt c cs)
  have here: "mt ((c # cs) @ ys) = mt (c # cs)"
    and len: "\<And>r n. mt (c # cs) = Some (r, n) \<Longrightarrow> 1 \<le> n \<and> n \<le> length (c # cs)"
    using "2.prems" [of "c # cs"] by simp_all
  show ?case
  proof (cases "mt (c # cs)")
    case None
    have "scan_sub mt (cs @ ys) = scan_sub mt cs @ scan_sub mt ys"
    proof (rule "2.IH"(1) [OF None])
      fix u assume "suffix u cs" "u \<noteq> []"
      then show "mt (u @ ys) = mt u \<and> (\<forall>r n. mt u = Some (r, n) \<longrightarrow> 1 \<le> n \<and> n \<le> length u)"
        using "2.prems" [of u] by (simp add: suffix_Cons)
    qed
    with None here show ?thesis by simp
  next
    case (Some p)
    obtain r n where p: "p = (r, n)" by (cases p)
    from len Some p have n: "1 \<le> n" "n - 1 \<le> length cs" by auto
    have "scan_sub mt (drop (n - 1) cs @ ys) = scan_sub mt (drop (n - 1) cs) @ scan_sub mt ys"
    proof (rule "2.IH"(2) [OF Some p [symmetric]])
      fix u assume u: "suffix u (drop (n - 1) cs)" "u \<noteq> []"
      have "suffix (drop (n - 1) cs) cs" by (rule suffix_drop)
      with u have "suffix u (c # cs)" by (meson suffix_order.trans suffix_ConsI)
      then show "mt (u @ ys) = mt u \<and> (\<forall>r n. mt u = Some (r, n) \<longrightarrow> 1 \<le> n \<and> n \<le> length u)"
        using "2.prems" [of u] u by simp
    qed
    with Some p here n show ?thesis by simp
  qed
qed

lemma scan_findall_append:
  assumes "\<And>u. suffix u xs \<Longrightarrow> u \<noteq> [] \<Longrightarrow>
             mt (u @ ys) = mt u \<and> (\<forall>r n. mt u = Some (r, n) \<longrightarrow> 1 \<le> n \<and> n \<le> length u)"
  shows "scan_findall mt (xs @ ys) = scan_findall mt xs @ scan_findall mt ys"
  using assms
proof (induction mt xs rule: scan_findall.induct)
  case (1 mt)
  show ?case by simp
next
  case (2 mt c cs)
  have here: "mt ((c # cs) @ ys) = mt (c # cs)"
    and len: "\<And>r n. mt (c # cs) = Some (r, n) \<Longrightarrow> 1 \<le> n \<and> n \<le> length (c # cs)"
    using "2.prems" [of "c # cs"] by simp_all
  show ?case
  proof (cases "mt (c # cs)")
    case None
    have "scan_findall mt (cs @ ys) = scan_findall mt cs @ scan_findall mt ys"
    proof (rule "2.IH"(1) [OF None])
      fix u assume "suffix u cs" "u \<noteq> []"
      then show "mt (u @ ys) = mt u \<and> (\<forall>r n. mt u = Some (r, n) \<longrightarrow> 1 \<le> n \<and> n \<le> length u)"
        using "2.prems" [of u] by (simp add: suffix_Cons)
    qed
    with None here show ?thesis by simp
  next
    case (Some p)
    obtain r n where p: "p = (r, n)" by (cases p)
    from len Some p have n: "1 \<le> n" "n - 1 \<le> length cs" by auto
    have "scan_findall mt (drop (n - 1) cs @ ys) = scan_findall mt (drop (n - 1) cs) @ scan_findall mt ys"
    proof (rule "2.IH"(2) [OF Some p [symmetric]])
      fix u assume u: "suffix u (drop (n - 1) cs)" "u \<noteq> []"
      have "suffix (drop (n - 1) cs) cs" by (rule suffix_drop)
      with u have "suffix u (c # cs)" by (meson suffix_order.trans suffix_ConsI)
      then show "mt (u @ ys) = mt u \<and> (\<forall>r n. mt u = Some (r, n) \<longrightarrow> 1 \<le> n \<and> n \<le> length u)"
        using "2.prems" [of u] u by simp
    qed
    with Some p here n show ?thesis by simp
  qed
qed

lemma scan_sub_skip:
  assumes "\<And>u. suffix u xs \<Longrightarrow> u \<noteq> [] \<Longrightarrow> mt (u @ ys) = None"
  shows "scan_sub mt (xs @ ys) = xs @ scan_sub mt ys"
  using assms
proof (induction xs)
  case Nil
  show ?case by simp
next
  case (Cons c cs)
  have "mt (c # cs @ ys) = None"
    using Cons.prems [of "c # cs"] by simp
  moreover have "scan_sub mt (cs @ ys) = cs @ scan_sub mt ys"
    by (rule Cons.IH) (simp add: Cons.prems suffix_Cons)
  ultimately show ?case by simp
qed

lemma scan_findall_skip:
  assumes "\<And>u. suffix u xs \<Longrightarrow> u \<noteq> [] \<Longrightarrow> mt (u @ ys) = None"
  shows "scan_findall mt (xs @ ys) = scan_findall mt ys"
  using assms
proof (induction xs)
  case Nil
  show ?case by simp
next
  case (Cons c cs)
  have "mt (c # cs @ ys) = None"
    using Cons.prems [of "c # cs"] by simp
  moreover have "scan_findall mt (cs @ ys) = scan_findall mt ys"
    by (rule Cons.IH) (simp add: Cons.prems suffix_Cons)
  ultimately show ?case by simp
qed

text \<open>A literal that has the character \<open>c\<close> at most at its head does not reach over a \<open>c\<close>.\<close>

lemma prefix_before_char:
  assumes "c \<notin> set (tl k)" and "u \<noteq> []"
  shows "prefix k (u @ c # ys) \<longleftrightarrow> prefix k u"
proof
  assume p: "prefix k (u @ c # ys)"
  show "prefix k u"
  proof (cases "length k \<le> length u")
    case True
    with p show ?thesis by (auto simp: prefix_append)
  next
    case False
    from p obtain zs where e: "u @ c # ys = k @ zs"
      by (auto simp: prefix_def)
    with False obtain us where us: "k = u @ us" "c # ys = us @ zs"
      by (auto simp: append_eq_append_conv2)
    with False have "us \<noteq> []"
      by auto
    with us(2) obtain us' where "us = c # us'"
      by (cases us) auto
    with assms(2) us(1) have "c \<in> set (tl k)"
      by (cases u) auto
    with assms(1) show ?thesis
      by simp
  qed
next
  assume "prefix k u"
  then show "prefix k (u @ c # ys)" by (rule prefix_prefix)
qed


section \<open>The three patterns\<close>

lemma not_is_digit [simp]:
  "\<not> is_digit 60" "\<not> is_digit 62" "\<not> is_digit 64" "\<not> is_digit 33" "\<not> is_digit 38" "\<not> is_digit 35"
  by (simp_all add: is_digit_def)

lemma takeWhile_digits:
  assumes "list_all is_digit g" and "\<not> is_digit c"
  shows "takeWhile is_digit (g @ c # r) = g" and "dropWhile is_digit (g @ c # r) = c # r"
  using assms by (induction g) auto

lemma match_marker_Some_iff:
  "match_marker opening s = Some (g, n) \<longleftrightarrow>
     g \<noteq> [] \<and> list_all is_digit g \<and> n = length opening + length g + 1 \<and>
     prefix (opening @ g @ lit ''>'') s"
proof
  assume m: "match_marker opening s = Some (g, n)"
  then have p: "prefix opening s"
    by (auto simp: match_marker_def split: if_splits)
  then obtain r where s: "s = opening @ r"
    by (auto simp: prefix_def)
  from m s have g: "g = takeWhile is_digit r" "g \<noteq> []" "n = length opening + length g + 1"
    and d: "prefix (lit ''>'') (dropWhile is_digit r)"
    by (auto simp: match_marker_def Let_def split: if_splits)
  from d obtain z where z: "dropWhile is_digit r = lit ''>'' @ z"
    by (auto simp: prefix_def)
  have "r = g @ dropWhile is_digit r"
    using g(1) by simp
  with z have "s = (opening @ g @ lit ''>'') @ z"
    using s by simp
  then have "prefix (opening @ g @ lit ''>'') s"
    by (rule prefixI)
  moreover have "list_all is_digit g"
    unfolding g(1) by (simp add: list_all_iff) (meson set_takeWhileD)
  ultimately show "g \<noteq> [] \<and> list_all is_digit g \<and> n = length opening + length g + 1 \<and>
     prefix (opening @ g @ lit ''>'') s"
    using g by simp
next
  assume a: "g \<noteq> [] \<and> list_all is_digit g \<and> n = length opening + length g + 1 \<and>
     prefix (opening @ g @ lit ''>'') s"
  then obtain z where s: "s = opening @ g @ 62 # z"
    by (auto simp: prefix_def)
  from a have t: "takeWhile is_digit (g @ 62 # z) = g" "dropWhile is_digit (g @ 62 # z) = 62 # z"
    by (simp_all add: takeWhile_digits)
  from a show "match_marker opening s = Some (g, n)"
    unfolding s match_marker_def by (simp add: t)
qed

lemma match_marker_length:
  assumes "match_marker opening u = Some (g, n)"
  shows "1 \<le> n \<and> n \<le> length u"
  using assms unfolding match_marker_Some_iff
  by (auto dest: prefix_length_le)

lemma option_pair_eqI:
  assumes "\<And>g n. x = Some (g, n) \<longleftrightarrow> y = Some (g, n)"
  shows "x = y"
  using assms by (cases x; cases y) auto

lemma match_marker_before_open:
  assumes "60 \<notin> set (tl opening)" and "u \<noteq> []"
  shows "match_marker opening (u @ 60 # ys) = match_marker opening u"
proof (rule option_pair_eqI)
  fix g n
  show "match_marker opening (u @ 60 # ys) = Some (g, n) \<longleftrightarrow> match_marker opening u = Some (g, n)"
  proof (cases "list_all is_digit g")
    case True
    then have "60 \<notin> set g"
      by (auto simp: list_all_iff)
    with assms(1) have "60 \<notin> set (tl (opening @ g @ lit ''>''))"
      by (cases "opening"; cases g) auto
    from prefix_before_char [OF this assms(2)] show ?thesis
      by (simp add: match_marker_Some_iff)
  next
    case False
    then show ?thesis
      by (simp add: match_marker_Some_iff)
  qed
qed

lemma user_pattern_before_open:
  assumes "u \<noteq> []"
  shows "user_pattern (u @ 60 # ys) = user_pattern u"
proof -
  have "match_marker (lit ''<@!'') (u @ 60 # ys) = match_marker (lit ''<@!'') u"
    and "match_marker (lit ''<@'') (u @ 60 # ys) = match_marker (lit ''<@'') u"
    using assms by (simp_all add: match_marker_before_open)
  then show ?thesis
    by (simp only: user_pattern_def)
qed

lemma user_pattern_length:
  assumes "user_pattern u = Some (g, n)"
  shows "1 \<le> n \<and> n \<le> length u"
  using assms match_marker_length
  by (auto simp: user_pattern_def split: option.splits)

lemma match_marker_other_head:
  assumes "opening \<noteq> []" and "u \<noteq> []" and "hd u \<noteq> hd opening"
  shows "match_marker opening (u @ ys) = None"
  using assms by (cases "opening"; cases u) (auto simp: match_marker_def)

lemma suffix_of_marker:
  assumes "suffix u (c # body)" and "u \<noteq> []" and "c \<notin> set body"
  shows "u = c # body \<or> hd u \<noteq> c"
proof (cases "u = c # body")
  case False
  with assms(1) have "suffix u body"
    by (simp add: suffix_Cons)
  with assms(2) have "hd u \<in> set body"
    by (metis hd_in_set set_mono_suffix subsetD)
  with assms(3) show ?thesis
    by auto
qed simp


lemma findall_before_marker:
  assumes "\<And>u ys. u \<noteq> [] \<Longrightarrow> P (u @ 60 # ys) = P u"
    and "\<And>u g n. P u = Some (g, n) \<Longrightarrow> 1 \<le> n \<and> n \<le> length u"
  shows "scan_findall P (pre @ 60 # rest) = scan_findall P pre @ scan_findall P (60 # rest)"
  by (rule scan_findall_append) (use assms in blast)

lemma user_findall_before_marker:
  "scan_findall user_pattern (pre @ 60 # rest)
     = scan_findall user_pattern pre @ scan_findall user_pattern (60 # rest)"
  by (rule findall_before_marker) (auto simp: user_pattern_before_open dest: user_pattern_length)

lemma marker_findall_before_marker:
  assumes "60 \<notin> set (tl op)"
  shows "scan_findall (match_marker op) (pre @ 60 # rest)
     = scan_findall (match_marker op) pre @ scan_findall (match_marker op) (60 # rest)"
  by (rule findall_before_marker) (auto simp: match_marker_before_open assms dest: match_marker_length)

lemma findall_skip_marker:
  assumes "c \<notin> set body" and "P (c # body @ post) = None"
    and "\<And>u. u \<noteq> [] \<Longrightarrow> hd u \<noteq> c \<Longrightarrow> P (u @ post) = None"
  shows "scan_findall P (c # body @ post) = scan_findall P post"
proof -
  have "scan_findall P ((c # body) @ post) = scan_findall P post"
  proof (rule scan_findall_skip)
    fix u assume u: "suffix u (c # body)" "u \<noteq> []"
    from suffix_of_marker [OF u assms(1)] show "P (u @ post) = None"
      using assms(2,3) u(2) by auto
  qed
  then show ?thesis by simp
qed

lemma findall_take_marker:
  assumes "P (c # body @ post) = Some (g, Suc (length body))"
  shows "scan_findall P (c # body @ post) = g # scan_findall P post"
  using assms by simp

lemma user_pattern_other_head:
  assumes "u \<noteq> []" and "hd u \<noteq> 60"
  shows "user_pattern (u @ ys) = None"
  using assms by (simp add: user_pattern_def match_marker_other_head)

lemma digits_no_markup:
  assumes "list_all is_digit ds"
  shows "60 \<notin> set ds" "62 \<notin> set ds"
  using assms by (auto simp: list_all_iff is_digit_def)

lemma role_marker_lists:
  assumes "ds \<noteq> []" and "list_all is_digit ds"
  shows "scan_findall user_pattern (pre @ lit ''<@&'' @ ds @ lit ''>'' @ post)
           = scan_findall user_pattern pre @ scan_findall user_pattern post"
    and "scan_findall channel_pattern (pre @ lit ''<@&'' @ ds @ lit ''>'' @ post)
           = scan_findall channel_pattern pre @ scan_findall channel_pattern post"
    and "scan_findall role_pattern (pre @ lit ''<@&'' @ ds @ lit ''>'' @ post)
           = scan_findall role_pattern pre @ ds # scan_findall role_pattern post"
proof -
  let ?body = "[64, 38] @ ds @ [62]"
  have body: "60 \<notin> set ?body"
    using digits_no_markup [OF assms(2)] by simp
  have e: "pre @ lit ''<@&'' @ ds @ lit ''>'' @ post = pre @ 60 # ?body @ post"
    by simp
  have t: "takeWhile is_digit (ds @ 62 # post) = ds" "dropWhile is_digit (ds @ 62 # post) = 62 # post"
    using assms(2) by (simp_all add: takeWhile_digits)
  have "user_pattern (60 # ?body @ post) = None"
    by (simp add: user_pattern_def match_marker_def)
  then have "scan_findall user_pattern (60 # ?body @ post) = scan_findall user_pattern post"
    by (intro findall_skip_marker body user_pattern_other_head)
  then show "scan_findall user_pattern (pre @ lit ''<@&'' @ ds @ lit ''>'' @ post)
           = scan_findall user_pattern pre @ scan_findall user_pattern post"
    unfolding e by (simp add: user_findall_before_marker)
  have "channel_pattern (60 # ?body @ post) = None"
    by (simp add: channel_pattern_def match_marker_def)
  then have "scan_findall channel_pattern (60 # ?body @ post) = scan_findall channel_pattern post"
    by (intro findall_skip_marker body) (simp_all add: channel_pattern_def match_marker_other_head)
  then show "scan_findall channel_pattern (pre @ lit ''<@&'' @ ds @ lit ''>'' @ post)
           = scan_findall channel_pattern pre @ scan_findall channel_pattern post"
    unfolding e channel_pattern_def by (simp add: marker_findall_before_marker)
  have "role_pattern (60 # ?body @ post) = Some (ds, Suc (length ?body))"
    using assms(1) by (simp add: role_pattern_def match_marker_def t)
  then have "scan_findall role_pattern (60 # ?body @ post) = ds # scan_findall role_pattern post"
    by (rule findall_take_marker)
  then show "scan_findall role_pattern (pre @ lit ''<@&'' @ ds @ lit ''>'' @ post)
           = scan_findall role_pattern pre @ ds # scan_findall role_pattern post"
    unfolding e role_pattern_def by (simp add: marker_findall_before_marker)
qed


lemma channel_marker_lists:
  assumes "ds \<noteq> []" and "list_all is_digit ds"
  shows "scan_findall user_pattern (pre @ lit ''<#'' @ ds @ lit ''>'' @ post)
           = scan_findall user_pattern pre @ scan_findall user_pattern post"
    and "scan_findall channel_pattern (pre @ lit ''<#'' @ ds @ lit ''>'' @ post)
           = scan_findall channel_pattern pre @ ds # scan_findall channel_pattern post"
    and "scan_findall role_pattern (pre @ lit ''<#'' @ ds @ lit ''>'' @ post)
           = scan_findall role_pattern pre @ scan_findall role_pattern post"
proof -
  let ?body = "[35] @ ds @ [62]"
  have body: "60 \<notin> set ?body"
    using digits_no_markup [OF assms(2)] by simp
  have e: "pre @ lit ''<#'' @ ds @ lit ''>'' @ post = pre @ 60 # ?body @ post"
    by simp
  have t: "takeWhile is_digit (ds @ 62 # post) = ds" "dropWhile is_digit (ds @ 62 # post) = 62 # post"
    using assms(2) by (simp_all add: takeWhile_digits)
  have "user_pattern (60 # ?body @ post) = None"
    by (simp add: user_pattern_def match_marker_def)
  then have "scan_findall user_pattern (60 # ?body @ post) = scan_findall user_pattern post"
    by (intro findall_skip_marker body user_pattern_other_head)
  then show "scan_findall user_pattern (pre @ lit ''<#'' @ ds @ lit ''>'' @ post)
           = scan_findall user_pattern pre @ scan_findall user_pattern post"
    unfolding e by (simp add: user_findall_before_marker)
  have "role_pattern (60 # ?body @ post) = None"
    by (simp add: role_pattern_def match_marker_def)
  then have "scan_findall role_pattern (60 # ?body @ post) = scan_findall role_pattern post"
    by (intro findall_skip_marker body) (simp_all add: role_pattern_def match_marker_other_head)
  then show "scan_findall role_pattern (pre @ lit ''<#'' @ ds @ lit ''>'' @ post)
           = scan_findall role_pattern pre @ scan_findall role_pattern post"
    unfolding e role_pattern_def by (simp add: marker_findall_before_marker)
  have "channel_pattern (60 # ?body @ post) = Some (ds, Suc (length ?body))"
    using assms(1) by (simp add: channel_pattern_def match_marker_def t)
  then have "scan_findall channel_pattern (60 # ?body @ post) = ds # scan_findall channel_pattern post"
    by (rule findall_take_marker)
  then show "scan_findall channel_pattern (pre @ lit ''<#'' @ ds @ lit ''>'' @ post)
           = scan_findall channel_pattern pre @ ds # scan_findall channel_pattern post"
    unfolding e channel_pattern_def by (simp add: marker_findall_before_marker)
qed

lemma user_pattern_Some:
  assumes "user_pattern s = Some (g, n)"
  shows "g \<noteq> [] \<and> list_all is_digit g \<and>
         (prefix (lit ''<@!'' @ g @ lit ''>'') s \<or> prefix (lit ''<@'' @ g @ lit ''>'') s)"
  using assms by (auto simp: user_pattern_def match_marker_Some_iff split: option.splits)

lemma one_pattern_at_a_position:
  "(user_pattern s \<noteq> None \<longrightarrow> role_pattern s = None \<and> channel_pattern s = None) \<and>
   (role_pattern s \<noteq> None \<longrightarrow> channel_pattern s = None)"
proof -
  have ur: "role_pattern s = None" and uc: "channel_pattern s = None"
    if u: "user_pattern s = Some (g, n)" for g n
  proof -
    from user_pattern_Some [OF u] obtain x g' where g: "g = x # g'" "is_digit x"
      by (cases g) auto
    show "role_pattern s = None"
    proof (cases "role_pattern s")
      case (Some p)
      then have "prefix (lit ''<@&'' @ fst p @ lit ''>'') s"
        by (cases p) (simp add: role_pattern_def match_marker_Some_iff)
      with user_pattern_Some [OF u] g show ?thesis
        by (auto simp: prefix_def)
    qed simp
    show "channel_pattern s = None"
    proof (cases "channel_pattern s")
      case (Some p)
      then have "prefix (lit ''<#'' @ fst p @ lit ''>'') s"
        by (cases p) (simp add: channel_pattern_def match_marker_Some_iff)
      with user_pattern_Some [OF u] show ?thesis
        by (auto simp: prefix_def)
    qed simp
  qed
  have rc: "channel_pattern s = None" if r: "role_pattern s = Some (g, n)" for g n
  proof (cases "channel_pattern s")
    case (Some p)
    then have "prefix (lit ''<#'' @ fst p @ lit ''>'') s"
      by (cases p) (simp add: channel_pattern_def match_marker_Some_iff)
    moreover from r have "prefix (lit ''<@&'' @ g @ lit ''>'') s"
      by (simp add: role_pattern_def match_marker_Some_iff)
    ultimately show ?thesis
      by (auto simp: prefix_def)
  qed simp
  from ur uc rc show ?thesis
    by auto
qed

text \<open>
  C8. The three patterns do not overlap. A role marker \<open><@&ID>\<close> in the content adds its
  id to \<open>raw_role_mentions\<close> and nothing to \<open>raw_mentions\<close> or \<open>raw_channel_mentions\<close>; a
  channel marker \<open><#ID>\<close> adds its id to \<open>raw_channel_mentions\<close> and nothing to the two
  others; and at no position of a text do two of the patterns match.
\<close>

theorem marker_categories_disjoint:
  assumes "update parse_time data self = Inr m"
  shows
  "(ds \<noteq> [] \<and> list_all is_digit ds \<and>
    content m = Some (pre @ lit ''<@&'' @ ds @ lit ''>'' @ post) \<longrightarrow>
      returned (raw_role_mentions m)
        = Inr (scan_findall role_pattern pre @ ds # scan_findall role_pattern post) \<and>
      returned (raw_mentions m)
        = Inr (scan_findall user_pattern pre @ scan_findall user_pattern post) \<and>
      returned (raw_channel_mentions m)
        = Inr (scan_findall channel_pattern pre @ scan_findall channel_pattern post)) \<and>
   (ds2 \<noteq> [] \<and> list_all is_digit ds2 \<and>
    content m = Some (pre2 @ lit ''<#'' @ ds2 @ lit ''>'' @ post2) \<longrightarrow>
      returned (raw_channel_mentions m)
        = Inr (scan_findall channel_pattern pre2 @ ds2 # scan_findall channel_pattern post2) \<and>
      returned (raw_mentions m)
        = Inr (scan_findall user_pattern pre2 @ scan_findall user_pattern post2) \<and>
      returned (raw_role_mentions m)
        = Inr (scan_findall role_pattern pre2 @ scan_findall role_pattern post2)) \<and>
   (user_pattern s1 \<noteq> None \<longrightarrow> role_pattern s1 = None \<and> channel_pattern s1 = None) \<and>
   (role_pattern s2 \<noteq> None \<longrightarrow> channel_pattern s2 = None)"
proof (intro conjI impI)
  assume a: "ds \<noteq> [] \<and> list_all is_digit ds \<and>
    content m = Some (pre @ lit ''<@&'' @ ds @ lit ''>'' @ post)"
  then have d: "ds \<noteq> []" "list_all is_digit ds"
    by simp_all
  from a show "returned (raw_role_mentions m)
        = Inr (scan_findall role_pattern pre @ ds # scan_findall role_pattern post)"
    by (simp only: hydrated_accessors [OF assms] re_findall_def option.case role_marker_lists [OF d])
  from a show "returned (raw_mentions m)
        = Inr (scan_findall user_pattern pre @ scan_findall user_pattern post)"
    by (simp only: hydrated_accessors [OF assms] re_findall_def option.case role_marker_lists [OF d])
  from a show "returned (raw_channel_mentions m)
        = Inr (scan_findall channel_pattern pre @ scan_findall channel_pattern post)"
    by (simp only: hydrated_accessors [OF assms] re_findall_def option.case role_marker_lists [OF d])
next
  assume a: "ds2 \<noteq> [] \<and> list_all is_digit ds2 \<and>
    content m = Some (pre2 @ lit ''<#'' @ ds2 @ lit ''>'' @ post2)"
  then have d: "ds2 \<noteq> []" "list_all is_digit ds2"
    by simp_all
  from a show "returned (raw_channel_mentions m)
        = Inr (scan_findall channel_pattern pre2 @ ds2 # scan_findall channel_pattern post2)"
    by (simp only: hydrated_accessors [OF assms] re_findall_def option.case channel_marker_lists [OF d])
  from a show "returned (raw_mentions m)
        = Inr (scan_findall user_pattern pre2 @ scan_findall user_pattern post2)"
    by (simp only: hydrated_accessors [OF assms] re_findall_def option.case channel_marker_lists [OF d])
  from a show "returned (raw_role_mentions m)
        = Inr (scan_findall role_pattern pre2 @ scan_findall role_pattern post2)"
    by (simp only: hydrated_accessors [OF assms] re_findall_def option.case channel_marker_lists [OF d])
next
  assume "user_pattern s1 \<noteq> None"
  then show "role_pattern s1 = None" "channel_pattern s1 = None"
    using one_pattern_at_a_position [of s1] by simp_all
next
  assume "role_pattern s2 \<noteq> None"
  then show "channel_pattern s2 = None"
    using one_pattern_at_a_position [of s2] by simp
qed


theorem marker_categories_disjoint_witness:
  "update example_parse_time
     (example_payload server_channel None (Some example_content) [mention_of ''123''] [lit ''7''])
     unset = Inr (example_server_message (Some example_content) [alice] [general] [mods])
   \<and> lit ''7'' \<noteq> [] \<and> list_all is_digit (lit ''7'')
   \<and> content (example_server_message (Some example_content) [alice] [general] [mods])
       = Some (lit ''hi <@123> <#555> '' @ lit ''<@&'' @ lit ''7'' @ lit ''>'' @ [])
   \<and> lit ''555'' \<noteq> [] \<and> list_all is_digit (lit ''555'')
   \<and> content (example_server_message (Some example_content) [alice] [general] [mods])
       = Some (lit ''hi <@123> '' @ lit ''<#'' @ lit ''555'' @ lit ''>'' @ lit '' <@&7>'')
   \<and> returned (raw_role_mentions
         (example_server_message (Some example_content) [alice] [general] [mods]))
       = Inr [lit ''7'']
   \<and> returned (raw_mentions
         (example_server_message (Some example_content) [alice] [general] [mods]))
       = Inr [lit ''123'']
   \<and> returned (raw_channel_mentions
         (example_server_message (Some example_content) [alice] [general] [mods]))
       = Inr [lit ''555'']
   \<and> user_pattern (lit ''<@123>'') \<noteq> None \<and> role_pattern (lit ''<@123>'') = None
   \<and> channel_pattern (lit ''<@123>'') = None
   \<and> role_pattern (lit ''<@&7>'') \<noteq> None \<and> channel_pattern (lit ''<@&7>'') = None"
proof -
  have c1: "content (example_server_message (Some example_content) [alice] [general] [mods])
       = Some (lit ''hi <@123> <#555> '' @ lit ''<@&'' @ lit ''7'' @ lit ''>'' @ [])"
    by (simp add: example_server_message_def example_content_def)
  have c2: "content (example_server_message (Some example_content) [alice] [general] [mods])
       = Some (lit ''hi <@123> '' @ lit ''<#'' @ lit ''555'' @ lit ''>'' @ lit '' <@&7>'')"
    by (simp add: example_server_message_def example_content_def)
  have d: "lit ''7'' \<noteq> []" "list_all is_digit (lit ''7'')"
    "lit ''555'' \<noteq> []" "list_all is_digit (lit ''555'')"
    by (simp_all add: is_digit_def)
  have u: "user_pattern (lit ''<@123>'') \<noteq> None"
    by (simp add: user_pattern_def match_marker_def is_digit_def)
  have r: "role_pattern (lit ''<@&7>'') \<noteq> None"
    by (simp add: role_pattern_def match_marker_def is_digit_def)
  have f: "scan_findall role_pattern (lit ''hi <@123> <#555> '') = []"
    "scan_findall user_pattern (lit ''hi <@123> <#555> '') = [lit ''123'']"
    "scan_findall channel_pattern (lit ''hi <@123> <#555> '') = [lit ''555'']"
    "scan_findall role_pattern [] = []" "scan_findall user_pattern [] = []"
    "scan_findall channel_pattern [] = []"
    by (simp_all add: role_pattern_def user_pattern_def channel_pattern_def match_marker_def
        is_digit_def)
  note t = marker_categories_disjoint [OF update_example_content,
      of "lit ''7''" "lit ''hi <@123> <#555> ''" "[]"
         "lit ''555''" "lit ''hi <@123> ''" "lit '' <@&7>''" "lit ''<@123>''" "lit ''<@&7>''"]
  from t c1 c2 d u r update_example_content show ?thesis
    by (simp only: f) simp
qed

section \<open>The second pass of \<open>clean_content\<close>\<close>

lemma scan_sub_copies_prefix:
  assumes "\<And>s r n. mt s = Some (r, n) \<Longrightarrow> r \<noteq> [] \<and> hd r = a" and "a \<notin> set w"
    and "prefix w (scan_sub mt cs)"
  shows "prefix w cs"
  using assms(2,3)
proof (induction w arbitrary: cs)
  case Nil
  show ?case by simp
next
  case (Cons x w)
  from Cons.prems(2) obtain c cs' where cs: "cs = c # cs'"
    by (cases cs) auto
  show ?case
  proof (cases "mt (c # cs')")
    case None
    with Cons.prems(2) cs have "x = c" "prefix w (scan_sub mt cs')"
      by simp_all
    with Cons.IH [of cs'] Cons.prems(1) cs show ?thesis
      by simp
  next
    case (Some p)
    obtain r n where p: "p = (r, n)" by (cases p)
    from assms(1) [of "c # cs'" r n] Some p obtain r' where "r = a # r'"
      by (cases r) auto
    with Cons.prems Some p cs show ?thesis
      by simp
  qed
qed

lemma sublist_behind_others:
  assumes "a \<notin> set r"
  shows "sublist (a # w) (r @ out) \<longleftrightarrow> sublist (a # w) out"
  using assms by (induction r) (auto simp: sublist_Cons_right)

lemma scan_sub_defuses:
  assumes "\<And>s r n. mt s = Some (r, n) \<Longrightarrow> \<exists>r'. r = a # z # r' \<and> a \<notin> set r' \<and> z \<noteq> a"
    and "\<And>s. prefix (a # w) s \<Longrightarrow> mt s \<noteq> None"
    and "a \<notin> set w" and "w \<noteq> []" and "hd w \<noteq> z"
  shows "\<not> sublist (a # w) (scan_sub mt s)"
  using assms
proof (induction mt s rule: scan_sub.induct)
  case (1 mt)
  show ?case by simp
next
  case (2 mt c cs)
  note repl = "2.prems"(1) and catch = "2.prems"(2) and w = "2.prems"(3,4,5)
  have hd_repl: "r \<noteq> [] \<and> hd r = a" if "mt s = Some (r, n)" for s r n
    using repl [OF that] by auto
  show ?case
  proof (cases "mt (c # cs)")
    case None
    have rest: "\<not> sublist (a # w) (scan_sub mt cs)"
      by (rule "2.IH"(1) [OF None repl catch w])
    have "\<not> prefix (a # w) (c # scan_sub mt cs)"
    proof
      assume p: "prefix (a # w) (c # scan_sub mt cs)"
      then have "prefix w (scan_sub mt cs)"
        by simp
      then have "prefix w cs"
        using scan_sub_copies_prefix [of mt a w cs] hd_repl w(1) by blast
      with p have "prefix (a # w) (c # cs)"
        by simp
      from catch [OF this] None show False
        by simp
    qed
    with rest None show ?thesis
      by (simp add: sublist_Cons_right)
  next
    case (Some p)
    obtain r n where p: "p = (r, n)" by (cases p)
    have rest: "\<not> sublist (a # w) (scan_sub mt (drop (n - 1) cs))"
      by (rule "2.IH"(2) [OF Some p [symmetric] repl catch w])
    from repl [of "c # cs" r n] Some p obtain r' where r: "r = a # z # r'" "a \<notin> set r'" "z \<noteq> a"
      by auto
    from w have "\<not> prefix w (z # r' @ scan_sub mt (drop (n - 1) cs))"
      by (cases w) auto
    with rest r Some p show ?thesis
      by (simp add: sublist_Cons_right sublist_behind_others)
  qed
qed


lemma keys_pattern_everyone_here:
  "keys_pattern everyone_here s =
     (if prefix (lit ''@everyone'') s then Some (lit ''@'' @ [zwsp] @ lit ''everyone'', 9)
      else if prefix (lit ''@here'') s then Some (lit ''@'' @ [zwsp] @ lit ''here'', 5)
      else None)"
  by (simp add: keys_pattern_def everyone_here_def dict_get_def)

lemma re_sub_everyone_here:
  "re_sub everyone_here s = scan_sub (keys_pattern everyone_here) s"
  by (simp add: re_sub_def everyone_here_def)

lemma second_pass_leaves_none:
  "\<not> sublist (lit ''@everyone'') (re_sub everyone_here s)"
  "\<not> sublist (lit ''@here'') (re_sub everyone_here s)"
proof -
  have repl: "\<exists>r'. r = 64 # zwsp # r' \<and> 64 \<notin> set r' \<and> zwsp \<noteq> 64"
    if "keys_pattern everyone_here s = Some (r, n)" for s r n
    using that by (auto simp: keys_pattern_everyone_here zwsp_def split: if_splits)
  have c1: "keys_pattern everyone_here s \<noteq> None" if "prefix (64 # lit ''everyone'') s" for s
    using that by (simp add: keys_pattern_everyone_here)
  have c2: "keys_pattern everyone_here s \<noteq> None" if "prefix (64 # lit ''here'') s" for s
    using that by (simp add: keys_pattern_everyone_here)
  have "\<not> sublist (64 # lit ''everyone'') (scan_sub (keys_pattern everyone_here) s)"
    by (rule scan_sub_defuses [where z = zwsp, OF repl c1]) (simp_all add: zwsp_def)
  then show "\<not> sublist (lit ''@everyone'') (re_sub everyone_here s)"
    by (simp add: re_sub_everyone_here)
  have "\<not> sublist (64 # lit ''here'') (scan_sub (keys_pattern everyone_here) s)"
    by (rule scan_sub_defuses [where z = zwsp, OF repl c2]) (simp_all add: zwsp_def)
  then show "\<not> sublist (lit ''@here'') (re_sub everyone_here s)"
    by (simp add: re_sub_everyone_here)
qed

lemma keys_pattern_before_char:
  assumes "\<And>k. k \<in> fst ` set d \<Longrightarrow> c \<notin> set (tl k)" and "u \<noteq> []"
  shows "keys_pattern d (u @ c # ys) = keys_pattern d u"
proof -
  have "find (\<lambda>k. prefix k (u @ c # ys)) (map fst d) = find (\<lambda>k. prefix k u) (map fst d)"
    by (rule find_cong) (use assms in \<open>auto simp: prefix_before_char\<close>)
  then show ?thesis
    by (simp add: keys_pattern_def)
qed

lemma keys_pattern_length:
  assumes "keys_pattern d u = Some (r, n)" and "[] \<notin> fst ` set d"
  shows "1 \<le> n \<and> n \<le> length u"
proof -
  from assms(1) obtain k where k: "find (\<lambda>k. prefix k u) (map fst d) = Some k" "n = length k"
    by (auto simp: keys_pattern_def split: option.splits)
  then have in_d: "k \<in> fst ` set d" and "prefix k u"
    by (auto simp: find_Some_iff)
  then have "length k \<le> length u"
    by (simp add: prefix_length_le)
  moreover from in_d assms(2) have "k \<noteq> []"
    by blast
  ultimately show ?thesis
    using k(2)
    by (cases k) auto
qed

lemma second_pass_takes_each:
  "re_sub everyone_here (pre @ lit ''@everyone'' @ post)
     = re_sub everyone_here pre @ lit ''@'' @ [zwsp] @ lit ''everyone'' @ re_sub everyone_here post"
  "re_sub everyone_here (pre @ lit ''@here'' @ post)
     = re_sub everyone_here pre @ lit ''@'' @ [zwsp] @ lit ''here'' @ re_sub everyone_here post"
proof -
  have split: "scan_sub (keys_pattern everyone_here) (pre @ 64 # rest)
      = scan_sub (keys_pattern everyone_here) pre @ scan_sub (keys_pattern everyone_here) (64 # rest)"
    for rest
  proof (rule scan_sub_append)
    fix u assume "suffix u pre" "u \<noteq> []"
    then have "keys_pattern everyone_here (u @ 64 # rest) = keys_pattern everyone_here u"
      by (intro keys_pattern_before_char) (auto simp: everyone_here_def)
    moreover have "1 \<le> n \<and> n \<le> length u" if "keys_pattern everyone_here u = Some (r, n)" for r n
      using that by (rule keys_pattern_length) (auto simp: everyone_here_def)
    ultimately show "keys_pattern everyone_here (u @ 64 # rest) = keys_pattern everyone_here u \<and>
       (\<forall>r n. keys_pattern everyone_here u = Some (r, n) \<longrightarrow> 1 \<le> n \<and> n \<le> length u)"
      by blast
  qed
  show "re_sub everyone_here (pre @ lit ''@everyone'' @ post)
     = re_sub everyone_here pre @ lit ''@'' @ [zwsp] @ lit ''everyone'' @ re_sub everyone_here post"
    using split [of "lit ''everyone'' @ post"]
    by (simp add: re_sub_everyone_here keys_pattern_everyone_here)
  show "re_sub everyone_here (pre @ lit ''@here'' @ post)
     = re_sub everyone_here pre @ lit ''@'' @ [zwsp] @ lit ''here'' @ re_sub everyone_here post"
    using split [of "lit ''here'' @ post"]
    by (simp add: re_sub_everyone_here keys_pattern_everyone_here)
qed

text \<open>
  C7. \<open>clean_content\<close> runs a second pass over the result of the mention substitution,
  which replaces every \<open>@everyone\<close> and \<open>@here\<close> by the same text with a zero-width space
  (U+200B) behind the \<open>@\<close>. The result contains neither \<open>@everyone\<close> nor \<open>@here\<close>; for the
  content \<open>ping @everyone now\<close> it is \<open>ping @\<close>, U+200B, \<open>everyone now\<close>.
\<close>

theorem broadcast_mentions_defused:
  assumes "update parse_time data self = Inr m" and "returned (clean_content m) = Inr r"
  shows "(\<exists>s. content m = Some s \<and> r = re_sub everyone_here (re_sub (transformations m) s)) \<and>
         \<not> sublist (lit ''@everyone'') r \<and> \<not> sublist (lit ''@here'') r \<and>
         re_sub everyone_here (pre @ lit ''@everyone'' @ post)
           = re_sub everyone_here pre @ lit ''@'' @ [zwsp] @ lit ''everyone''
               @ re_sub everyone_here post \<and>
         re_sub everyone_here (pre @ lit ''@here'' @ post)
           = re_sub everyone_here pre @ lit ''@'' @ [zwsp] @ lit ''here''
               @ re_sub everyone_here post"
proof -
  from assms have "clean_content_body m = Inr r"
    by (simp add: hydrated_accessors)
  then obtain s where s: "content m = Some s"
    "r = re_sub everyone_here (re_sub (transformations m) s)"
    by (auto simp: clean_content_body_def Let_def split: option.splits)
  then show ?thesis
    by (simp only: second_pass_leaves_none second_pass_takes_each) simp
qed


theorem broadcast_mentions_defused_witness:
  "update example_parse_time
     ((example_payload server_channel None (Some (lit ''ping @everyone now'')) [] [])
        \<lparr>p_mention_everyone := Some True\<rparr>) unset
     = Inr ((example_server_message (Some (lit ''ping @everyone now'')) [] [] [])
        \<lparr>mention_everyone := Some True\<rparr>)
   \<and> returned (clean_content
        ((example_server_message (Some (lit ''ping @everyone now'')) [] [] [])
           \<lparr>mention_everyone := Some True\<rparr>))
     = Inr (lit ''ping '' @ (lit ''@'' @ [zwsp] @ lit ''everyone'') @ lit '' now'')
   \<and> sublist (lit ''@'' @ [zwsp] @ lit ''everyone'')
        (lit ''ping '' @ (lit ''@'' @ [zwsp] @ lit ''everyone'') @ lit '' now'')
   \<and> \<not> sublist (lit ''@everyone'')
        (lit ''ping '' @ (lit ''@'' @ [zwsp] @ lit ''everyone'') @ lit '' now'')
   \<and> \<not> sublist (lit ''@here'')
        (lit ''ping '' @ (lit ''@'' @ [zwsp] @ lit ''everyone'') @ lit '' now'')"
proof -
  have u: "update example_parse_time
     ((example_payload server_channel None (Some (lit ''ping @everyone now'')) [] [])
        \<lparr>p_mention_everyone := Some True\<rparr>) unset
     = Inr ((example_server_message (Some (lit ''ping @everyone now'')) [] [] [])
        \<lparr>mention_everyone := Some True\<rparr>)"
    by (simp add: hydration_defs example_server_message_def)
  have c: "returned (clean_content
        ((example_server_message (Some (lit ''ping @everyone now'')) [] [] [])
           \<lparr>mention_everyone := Some True\<rparr>))
     = Inr (lit ''ping '' @ (lit ''@'' @ [zwsp] @ lit ''everyone'') @ lit '' now'')"
    by (simp add: access_defs example_server_message_def cached_slot_property_def)
  have d: "sublist (lit ''@'' @ [zwsp] @ lit ''everyone'')
        (lit ''ping '' @ (lit ''@'' @ [zwsp] @ lit ''everyone'') @ lit '' now'')"
    by (rule sublist_appendI)
  from broadcast_mentions_defused [OF u c] u c d show ?thesis
    by blast
qed

section \<open>The first pass of \<open>clean_content\<close>\<close>

lemma dict_set_keys: "fst ` set (dict_set k v d) = insert k (fst ` set d)"
  by (induction d) auto

lemma foldl_dict_set_keys:
  "fst ` set (foldl (\<lambda>acc x. dict_set (key x) (val x) acc) d xs) = fst ` set d \<union> key ` set xs"
  by (induction xs arbitrary: d) (auto simp: dict_set_keys)

lemma dict_comp_keys: "fst ` set (dict_comp key val xs) = key ` set xs"
  by (simp add: dict_comp_def foldl_dict_set_keys)

lemma dict_update_keys: "fst ` set (dict_update d other) = fst ` set d \<union> fst ` set other"
proof -
  have "dict_update d other = foldl (\<lambda>acc x. dict_set (fst x) (snd x) acc) d other"
    by (simp add: dict_update_def case_prod_unfold)
  then show ?thesis
    by (simp add: foldl_dict_set_keys)
qed

lemma transformations_keys:
  "fst ` set (transformations m) \<subseteq>
     (\<lambda>c. lit ''<#'' @ channel_id c @ lit ''>'') ` set (channel_mentions m) \<union>
     (\<lambda>mb. lit ''<@'' @ member_id mb @ lit ''>'') ` set (mentions m) \<union>
     (\<lambda>mb. lit ''<@!'' @ member_id mb @ lit ''>'') ` set (mentions m) \<union>
     (\<lambda>r. lit ''<@&'' @ role_id r @ lit ''>'') ` set (role_mentions m)"
  by (auto simp: transformations_def Let_def dict_update_keys dict_comp_keys)

text \<open>No key of \<open>transformations\<close> is empty, so every match of the first pass has a length.\<close>

lemma transformations_keys_nonempty: "[] \<notin> fst ` set (transformations m)"
  using transformations_keys [of m] by auto

lemma marker_shape:
  assumes "list_all is_digit i" and "op \<in> {lit ''<@'', lit ''<@!'', lit ''<#'', lit ''<@&''}"
  shows "\<exists>mb. op @ i @ lit ''>'' = 60 # mb @ [62] \<and> 60 \<notin> set mb \<and> 62 \<notin> set mb \<and>
           101 \<notin> set mb \<and> 104 \<notin> set mb"
proof -
  from assms(1) have "60 \<notin> set i" "62 \<notin> set i" "101 \<notin> set i" "104 \<notin> set i"
    by (auto simp: list_all_iff is_digit_def)
  with assms(2) show ?thesis
    by auto
qed

lemma transformations_key_shape:
  assumes "list_all (\<lambda>mb. list_all is_digit (member_id mb)) (mentions m)"
    and "list_all (\<lambda>c. list_all is_digit (channel_id c)) (channel_mentions m)"
    and "list_all (\<lambda>r. list_all is_digit (role_id r)) (role_mentions m)"
    and "k \<in> fst ` set (transformations m)"
  shows "\<exists>mb. k = 60 # mb @ [62] \<and> 60 \<notin> set mb \<and> 62 \<notin> set mb"
proof -
  from assms(4) transformations_keys [of m]
  consider c where "c \<in> set (channel_mentions m)" "k = lit ''<#'' @ channel_id c @ lit ''>''"
    | mb where "mb \<in> set (mentions m)" "k = lit ''<@'' @ member_id mb @ lit ''>''"
    | mb where "mb \<in> set (mentions m)" "k = lit ''<@!'' @ member_id mb @ lit ''>''"
    | r where "r \<in> set (role_mentions m)" "k = lit ''<@&'' @ role_id r @ lit ''>''"
    by blast
  then show ?thesis
  proof cases
    case 1
    with assms(2) have "list_all is_digit (channel_id c)"
      by (simp add: list_all_iff)
    from marker_shape [OF this, of "lit ''<#''"] 1(2) show ?thesis
      by auto
  next
    case 2
    with assms(1) have "list_all is_digit (member_id mb)"
      by (simp add: list_all_iff)
    from marker_shape [OF this, of "lit ''<@''"] 2(2) show ?thesis
      by auto
  next
    case 3
    with assms(1) have "list_all is_digit (member_id mb)"
      by (simp add: list_all_iff)
    from marker_shape [OF this, of "lit ''<@!''"] 3(2) show ?thesis
      by auto
  next
    case 4
    with assms(3) have "list_all is_digit (role_id r)"
      by (simp add: list_all_iff)
    from marker_shape [OF this, of "lit ''<@&''"] 4(2) show ?thesis
      by auto
  qed
qed

lemma closed_marker_prefix:
  assumes "k = kb @ [c]" and "c \<notin> set kb" and "mk = mb @ [c]" and "c \<notin> set mb"
    and "prefix k (mk @ post)"
  shows "k = mk"
proof -
  from assms(5) obtain z where "mb @ c # post = kb @ c # z"
    unfolding assms(1,3) by (auto simp: prefix_def)
  then have "takeWhile (\<lambda>x. x \<noteq> c) (mb @ c # post) = takeWhile (\<lambda>x. x \<noteq> c) (kb @ c # z)"
    by simp
  moreover from assms(2,4) have "takeWhile (\<lambda>x. x \<noteq> c) mb = mb" "takeWhile (\<lambda>x. x \<noteq> c) kb = kb"
    by (auto simp: takeWhile_eq_all_conv)
  ultimately have "mb = kb"
    by (simp add: takeWhile_tail)
  with assms(1,3) show ?thesis
    by simp
qed

lemma re_sub_empty: "re_sub [] s = s"
  by (induction s) (simp_all add: re_sub_def dict_get_def)

lemma first_pass_keeps_marker:
  assumes shape: "\<And>k. k \<in> fst ` set d \<Longrightarrow> \<exists>kb. k = 60 # kb @ [62] \<and> 60 \<notin> set kb \<and> 62 \<notin> set kb"
    and mk: "60 \<notin> set mb" "62 \<notin> set mb"
    and not_key: "60 # mb @ [62] \<notin> fst ` set d"
  shows "re_sub d (pre @ (60 # mb @ [62]) @ post) = re_sub d pre @ (60 # mb @ [62]) @ re_sub d post"
proof (cases "d = []")
  case True
  then show ?thesis
    by (simp add: re_sub_empty)
next
  case False
  let ?mt = "keys_pattern d"
  have tl_keys: "60 \<notin> set (tl k)" and nonempty: "k \<noteq> []" and hd_keys: "hd k = 60"
    if "k \<in> fst ` set d" for k
    using shape [OF that] by auto
  have "scan_sub ?mt (pre @ 60 # (mb @ [62]) @ post)
      = scan_sub ?mt pre @ scan_sub ?mt (60 # (mb @ [62]) @ post)"
  proof (rule scan_sub_append)
    fix u assume "suffix u pre" "u \<noteq> []"
    then have "?mt (u @ 60 # (mb @ [62]) @ post) = ?mt u"
      by (intro keys_pattern_before_char tl_keys)
    moreover have "1 \<le> n \<and> n \<le> length u" if "?mt u = Some (r, n)" for r n
      using that by (rule keys_pattern_length) (use nonempty in blast)
    ultimately show "?mt (u @ 60 # (mb @ [62]) @ post) = ?mt u \<and>
       (\<forall>r n. ?mt u = Some (r, n) \<longrightarrow> 1 \<le> n \<and> n \<le> length u)"
      by blast
  qed
  moreover have "scan_sub ?mt ((60 # mb @ [62]) @ post) = (60 # mb @ [62]) @ scan_sub ?mt post"
  proof (rule scan_sub_skip)
    fix u assume u: "suffix u (60 # mb @ [62])" "u \<noteq> []"
    have "\<not> prefix k (u @ post)" if k: "k \<in> fst ` set d" for k
    proof
      assume p: "prefix k (u @ post)"
      from shape [OF k] obtain kb where kb: "k = 60 # kb @ [62]" "60 \<notin> set kb" "62 \<notin> set kb"
        by auto
      from suffix_of_marker [OF u, of ] mk have "u = 60 # mb @ [62] \<or> hd u \<noteq> 60"
        by simp
      then show False
      proof
        assume "u = 60 # mb @ [62]"
        with p kb mk have "k = 60 # mb @ [62]"
          using closed_marker_prefix [of k "60 # kb" 62 "60 # mb @ [62]" "60 # mb" post] by simp
        with k not_key show False
          by simp
      next
        assume "hd u \<noteq> 60"
        with p kb u(2) show False
          by (cases u) auto
      qed
    qed
    then have "find (\<lambda>k. prefix k (u @ post)) (map fst d) = None"
      by (auto simp: find_None_iff)
    then show "?mt (u @ post) = None"
      by (simp add: keys_pattern_def)
  qed
  ultimately show ?thesis
    using False by (simp add: re_sub_def)
qed


lemma second_pass_keeps_marker:
  assumes "60 \<notin> set mb" and "101 \<notin> set mb" and "104 \<notin> set mb"
  shows "re_sub everyone_here (a @ (60 # mb @ [62]) @ b)
           = re_sub everyone_here a @ (60 # mb @ [62]) @ re_sub everyone_here b"
proof -
  let ?mt = "keys_pattern everyone_here"
  have "scan_sub ?mt (a @ 60 # (mb @ [62]) @ b)
      = scan_sub ?mt a @ scan_sub ?mt (60 # (mb @ [62]) @ b)"
  proof (rule scan_sub_append)
    fix u assume "suffix u a" "u \<noteq> []"
    then have "?mt (u @ 60 # (mb @ [62]) @ b) = ?mt u"
      by (intro keys_pattern_before_char) (auto simp: everyone_here_def)
    moreover have "1 \<le> n \<and> n \<le> length u" if "?mt u = Some (r, n)" for r n
      using that by (rule keys_pattern_length) (auto simp: everyone_here_def)
    ultimately show "?mt (u @ 60 # (mb @ [62]) @ b) = ?mt u \<and>
       (\<forall>r n. ?mt u = Some (r, n) \<longrightarrow> 1 \<le> n \<and> n \<le> length u)"
      by blast
  qed
  moreover have "scan_sub ?mt ((60 # mb @ [62]) @ b) = (60 # mb @ [62]) @ scan_sub ?mt b"
  proof (rule scan_sub_skip)
    fix u assume u: "suffix u (60 # mb @ [62])" "u \<noteq> []"
    from u(1) have sub: "set u \<subseteq> insert 60 (insert 62 (set mb))"
      using set_mono_suffix by fastforce
    from u(1) obtain zs where "(60 # mb) @ [62] = zs @ u"
      by (auto simp: suffix_def)
    then have "last (zs @ u) = last ((60 # mb) @ [62])"
      by simp
    with u(2) have l: "last u = 62"
      by (metis last_appendR last_snoc)
    have "\<not> prefix (64 # x # w) (u @ b)" if "x \<notin> set mb" "x \<noteq> 60" "x \<noteq> 62" for x w
    proof
      assume p: "prefix (64 # x # w) (u @ b)"
      from u(2) obtain c u' where c: "u = c # u'"
        by (cases u) auto
      with p have "c = 64"
        by simp
      show False
      proof (cases u')
        case Nil
        with c \<open>c = 64\<close> l show False
          by simp
      next
        case (Cons y u'')
        with p c have "x = y"
          by simp
        with Cons c sub that show False
          by auto
      qed
    qed
    from this [of 101] this [of 104] assms show "?mt (u @ b) = None"
      by (simp add: keys_pattern_everyone_here)
  qed
  ultimately show ?thesis
    by (simp add: re_sub_everyone_here)
qed


lemma init_unresolved:
  "init example_parse_time
     (example_payload server_channel None (Some (lit ''<@999>'')) [mention_of ''999''] [])
   = Inr (example_server_message (Some (lit ''<@999>'')) [] [] [])"
  by (simp add: hydration_defs example_server_message_def)

text \<open>
  C3 (as the claim states it, refuted). The claim: a marker in the content that is not a key
  of \<open>transformations\<close> is rewritten to the empty string. The member 999 is not in the
  roster, so the dictionary is empty, and the marker \<open><@999>\<close> is the whole result.
\<close>

theorem unresolved_marker_not_removed:
  "then_attr transformations
     (init example_parse_time
        (example_payload server_channel None (Some (lit ''<@999>'')) [mention_of ''999''] []))
     = Inr []
   \<and> then_value clean_content
     (init example_parse_time
        (example_payload server_channel None (Some (lit ''<@999>'')) [mention_of ''999''] []))
     = Inr (lit ''<@999>'')
   \<and> then_value clean_content
     (init example_parse_time
        (example_payload server_channel None (Some (lit ''<@999>'')) [mention_of ''999''] []))
     \<noteq> Inr []"
  unfolding init_unresolved
  by (simp add: access_defs example_server_message_def cached_slot_property_def)

text \<open>
  C3 (amended). The pattern of the first pass is the alternation of the keys, so only a key
  is ever rewritten. When the ids of the resolved members, channels and roles are decimal,
  a text \<open><@ID>\<close>, \<open><@!ID>\<close>, \<open><#ID>\<close> or \<open><@&ID>\<close> in the content that is not a key of
  \<open>transformations\<close> stands unchanged in \<open>clean_content\<close>, between the clean forms of the
  text before it and of the text behind it.
\<close>

theorem unresolved_marker_left_as_markup:
  assumes "update parse_time data self = Inr m"
    and "list_all (\<lambda>mb. list_all is_digit (member_id mb)) (mentions m)"
    and "list_all (\<lambda>c. list_all is_digit (channel_id c)) (channel_mentions m)"
    and "list_all (\<lambda>r. list_all is_digit (role_id r)) (role_mentions m)"
    and "list_all is_digit ds"
    and "form \<in> {lit ''<@'', lit ''<@!'', lit ''<#'', lit ''<@&''}"
    and "content m = Some (pre @ (form @ ds @ lit ''>'') @ post)"
    and "form @ ds @ lit ''>'' \<notin> fst ` set (transformations m)"
  shows "returned (clean_content m)
           = Inr (re_sub everyone_here (re_sub (transformations m) pre)
                  @ (form @ ds @ lit ''>'')
                  @ re_sub everyone_here (re_sub (transformations m) post))"
proof -
  from marker_shape [OF assms(5,6)] obtain mb where
    mk: "form @ ds @ lit ''>'' = 60 # mb @ [62]" "60 \<notin> set mb" "62 \<notin> set mb"
      "101 \<notin> set mb" "104 \<notin> set mb"
    by blast
  have "re_sub (transformations m) (pre @ (60 # mb @ [62]) @ post)
      = re_sub (transformations m) pre @ (60 # mb @ [62]) @ re_sub (transformations m) post"
  proof (rule first_pass_keeps_marker)
    fix k assume "k \<in> fst ` set (transformations m)"
    then show "\<exists>kb. k = 60 # kb @ [62] \<and> 60 \<notin> set kb \<and> 62 \<notin> set kb"
      by (rule transformations_key_shape [OF assms(2,3,4)])
  next
    from assms(8) show "60 # mb @ [62] \<notin> fst ` set (transformations m)"
      unfolding mk(1) .
  qed (use mk in simp_all)
  then have "re_sub everyone_here (re_sub (transformations m) (pre @ (60 # mb @ [62]) @ post))
      = re_sub everyone_here (re_sub (transformations m) pre) @ (60 # mb @ [62])
          @ re_sub everyone_here (re_sub (transformations m) post)"
    by (simp only: second_pass_keeps_marker [OF mk(2,4,5)])
  with assms(7) have "clean_content_body m
      = Inr (re_sub everyone_here (re_sub (transformations m) pre) @ (60 # mb @ [62])
          @ re_sub everyone_here (re_sub (transformations m) post))"
    by (simp only: clean_content_body_def Let_def mk(1) option.case)
  then show ?thesis
    by (simp only: hydrated_accessors [OF assms(1)] mk(1))
qed

theorem unresolved_marker_left_as_markup_witness:
  "update example_parse_time
     (example_payload server_channel None (Some (lit ''hey <@123> and <@999>''))
        [mention_of ''123'', mention_of ''999''] []) unset
     = Inr (example_server_message (Some (lit ''hey <@123> and <@999>'')) [alice] [] [])
   \<and> list_all (\<lambda>mb. list_all is_digit (member_id mb))
       (mentions (example_server_message (Some (lit ''hey <@123> and <@999>'')) [alice] [] []))
   \<and> list_all is_digit (lit ''999'')
   \<and> content (example_server_message (Some (lit ''hey <@123> and <@999>'')) [alice] [] [])
       = Some (lit ''hey <@123> and '' @ (lit ''<@'' @ lit ''999'' @ lit ''>'') @ [])
   \<and> lit ''<@'' @ lit ''999'' @ lit ''>''
       \<notin> fst ` set (transformations
             (example_server_message (Some (lit ''hey <@123> and <@999>'')) [alice] [] []))
   \<and> returned (clean_content
        (example_server_message (Some (lit ''hey <@123> and <@999>'')) [alice] [] []))
       = Inr (lit ''hey @Alice and <@999>'')"
proof -
  have u: "update example_parse_time
     (example_payload server_channel None (Some (lit ''hey <@123> and <@999>''))
        [mention_of ''123'', mention_of ''999''] []) unset
     = Inr (example_server_message (Some (lit ''hey <@123> and <@999>'')) [alice] [] [])"
    by (simp add: hydration_defs example_server_message_def)
  have i1: "list_all (\<lambda>mb. list_all is_digit (member_id mb))
       (mentions (example_server_message (Some (lit ''hey <@123> and <@999>'')) [alice] [] []))"
    by (simp add: example_server_message_def alice_def is_digit_def)
  have i2: "list_all (\<lambda>c. list_all is_digit (channel_id c))
       (channel_mentions
          (example_server_message (Some (lit ''hey <@123> and <@999>'')) [alice] [] []))"
    by (simp add: example_server_message_def)
  have i3: "list_all (\<lambda>r. list_all is_digit (role_id r))
       (role_mentions (example_server_message (Some (lit ''hey <@123> and <@999>'')) [alice] [] []))"
    by (simp add: example_server_message_def)
  have d: "list_all is_digit (lit ''999'')"
    by (simp add: is_digit_def)
  have f: "lit ''<@'' \<in> {lit ''<@'', lit ''<@!'', lit ''<#'', lit ''<@&''}"
    by simp
  have c: "content (example_server_message (Some (lit ''hey <@123> and <@999>'')) [alice] [] [])
       = Some (lit ''hey <@123> and '' @ (lit ''<@'' @ lit ''999'' @ lit ''>'') @ [])"
    by (simp add: example_server_message_def)
  have t: "transformations
             (example_server_message (Some (lit ''hey <@123> and <@999>'')) [alice] [] [])
       = [(lit ''<@123>'', lit ''@Alice''), (lit ''<@!123>'', lit ''@Alice'')]"
    by (simp add: transformations_def dict_comp_def dict_update_def example_server_message_def
        alice_def)
  have k: "lit ''<@'' @ lit ''999'' @ lit ''>''
       \<notin> fst ` set (transformations
             (example_server_message (Some (lit ''hey <@123> and <@999>'')) [alice] [] []))"
    unfolding t by simp
  have p: "re_sub everyone_here
       (re_sub [(lit ''<@123>'', lit ''@Alice''), (lit ''<@!123>'', lit ''@Alice'')]
          (lit ''hey <@123> and '')) = lit ''hey @Alice and ''"
    "re_sub everyone_here
       (re_sub [(lit ''<@123>'', lit ''@Alice''), (lit ''<@!123>'', lit ''@Alice'')] []) = []"
    by (simp_all add: re_sub_def keys_pattern_def dict_get_def everyone_here_def)
  from unresolved_marker_left_as_markup [OF u i1 i2 i3 d f c k] u i1 d c k show ?thesis
    unfolding t p by simp
qed

section \<open>Both forms of a member's marker\<close>

text \<open>What a key of a dictionary is stored under, and the first match among the keys.\<close>

lemma dict_set_lookup: "map_of (dict_set k v d) k' = (if k' = k then Some v else map_of d k')"
  by (induction d) auto

lemma dict_set_entries: "set (dict_set k v d) \<subseteq> insert (k, v) (set d)"
  by (induction d) auto

lemma foldl_dict_set_lookup:
  assumes "\<And>x. x \<in> set xs \<Longrightarrow> key x = k \<Longrightarrow> val x = v"
  shows "map_of (foldl (\<lambda>acc x. dict_set (key x) (val x) acc) d xs) k
           = (if k \<in> key ` set xs then Some v else map_of d k)"
  using assms
proof (induction xs arbitrary: d)
  case Nil
  show ?case by simp
next
  case (Cons x xs)
  have "map_of (foldl (\<lambda>acc x. dict_set (key x) (val x) acc) (dict_set (key x) (val x) d) xs) k
      = (if k \<in> key ` set xs then Some v else map_of (dict_set (key x) (val x) d) k)"
    by (rule Cons.IH) (simp add: Cons.prems)
  with Cons.prems [of x] show ?case
    by (auto simp: dict_set_lookup)
qed

lemma foldl_dict_set_entries:
  "set (foldl (\<lambda>acc x. dict_set (key x) (val x) acc) d xs)
     \<subseteq> set d \<union> (\<lambda>x. (key x, val x)) ` set xs"
proof (induction xs arbitrary: d)
  case Nil
  show ?case by simp
next
  case (Cons x xs)
  from Cons.IH [of "dict_set (key x) (val x) d"] dict_set_entries [of "key x" "val x" d]
  show ?case
    by auto
qed

lemma dict_comp_entries:
  assumes "(k, v) \<in> set (dict_comp key val xs)"
  shows "\<exists>x\<in>set xs. key x = k \<and> val x = v"
  using assms foldl_dict_set_entries [of key val "[]" xs]
  by (auto simp: dict_comp_def)

lemma dict_update_lookup:
  assumes "\<And>v'. (k, v') \<in> set other \<Longrightarrow> v' = v"
  shows "map_of (dict_update d other) k = (if k \<in> fst ` set other then Some v else map_of d k)"
proof -
  have "dict_update d other = foldl (\<lambda>acc x. dict_set (fst x) (snd x) acc) d other"
    by (simp add: dict_update_def case_prod_unfold)
  moreover have "map_of (foldl (\<lambda>acc x. dict_set (fst x) (snd x) acc) d other) k
      = (if k \<in> fst ` set other then Some v else map_of d k)"
    by (rule foldl_dict_set_lookup) (use assms in auto)
  ultimately show ?thesis
    by simp
qed

lemma dict_update_lookup_other:
  assumes "k \<notin> fst ` set other"
  shows "map_of (dict_update d other) k = map_of d k"
proof -
  have "\<And>v'. (k, v') \<in> set other \<Longrightarrow> v' = undefined"
    using assms by force
  from dict_update_lookup [of k other undefined d, OF this] assms show ?thesis
    by simp
qed

lemma find_the_only:
  assumes "x \<in> set xs" and "P x" and "\<And>y. y \<in> set xs \<Longrightarrow> P y \<Longrightarrow> y = x"
  shows "find P xs = Some x"
  using assms
proof (induction xs)
  case Nil
  then show ?case by simp
next
  case (Cons a xs)
  show ?case
  proof (cases "P a")
    case True
    with Cons.prems(3) [of a] show ?thesis
      by simp
  next
    case False
    with Cons.prems(1,2) have "x \<in> set xs"
      by auto
    from Cons.IH [OF this Cons.prems(2)] Cons.prems(3) False show ?thesis
      by simp
  qed
qed

lemma append_found_set:
  "set (append_found f xs out) = set out \<union> {y. \<exists>x\<in>set xs. f x = Some y}"
  by (induction xs arbitrary: out) (auto split: option.splits)


text \<open>
  In a channel of a server, \<open>mentions\<close> holds what the roster returns for the entries of the
  payload's \<open>mentions\<close>, in their order; markers in the content add nothing to it.
\<close>

lemma update_in_server_channel:
  assumes "update pt data self = Inr m"
    and "p_channel data = Some (Channel i False (Some srv))"
  shows "mentions m = append_found (\<lambda>u. get_member srv (user_id u))
           (case p_mentions data of None \<Rightarrow> [] | Some ms \<Rightarrow> ms) []"
proof -
  from assms(1) obtain et t upgraded resolved where
    hu: "handle_upgrades (p_channel_id data)
       (self\<lparr>edited_timestamp := et, timestamp := t, tts := p_tts data,
             content := p_content data, mention_everyone := p_mention_everyone data,
             embeds := p_embeds data, msg_id := p_id data, channel := p_channel data,
             author := UserA (User (p_author data)), nonce := p_nonce data,
             attachments := p_attachments data\<rparr>) = Inr upgraded"
    and hm: "handle_mentions (case p_mentions data of None \<Rightarrow> [] | Some ms \<Rightarrow> ms)
       (case p_mention_roles data of None \<Rightarrow> [] | Some rs \<Rightarrow> rs) upgraded = Inr resolved"
    and m: "m = clear_cached resolved"
    by (rule updateE)
  from handle_upgrades_channel [OF hu] assms(2)
  have cu: "channel upgraded = Some (Channel i False (Some srv))" "server upgraded = Some srv"
    by simp_all
  have "append_found (\<lambda>u. get_member srv (user_id u)) [] [] = []"
    by simp
  with hm cu have "mentions resolved = append_found (\<lambda>u. get_member srv (user_id u))
           (case p_mentions data of None \<Rightarrow> [] | Some ms \<Rightarrow> ms) []"
    by (auto simp: handle_mentions_explicit resolve_members_def
        split: sum.splits option.splits if_splits)
  with m show ?thesis
    by simp
qed

lemma mentioned_alice:
  assumes "update pt data self = Inr m"
    and "p_channel data = Some (Channel i False (Some srv))"
    and "p_mentions data = Some ms" and "Some (lit ''123'') \<in> user_id ` set ms"
    and "get_member srv (Some (lit ''123'')) = Some mb0" and "display_name mb0 = lit ''Alice''"
    and keyed: "\<forall>j mb. get_member srv j = Some mb \<longrightarrow>
                 j = Some (member_id mb) \<and> list_all is_digit (member_id mb)"
  shows "\<exists>mb\<in>set (mentions m). member_id mb = lit ''123''"
    and "\<forall>mb\<in>set (mentions m). list_all is_digit (member_id mb) \<and>
           (member_id mb = lit ''123'' \<longrightarrow> display_name mb = lit ''Alice'')"
proof -
  have s: "set (mentions m) = {y. \<exists>u\<in>set ms. get_member srv (user_id u) = Some y}"
    by (simp add: update_in_server_channel [OF assms(1,2)] assms(3) append_found_set)
  from keyed assms(5) have id0: "member_id mb0 = lit ''123''"
    by (metis option.inject)
  from assms(4,5) have "mb0 \<in> set (mentions m)"
    unfolding s by force
  with id0 show "\<exists>mb\<in>set (mentions m). member_id mb = lit ''123''"
    by blast
  show "\<forall>mb\<in>set (mentions m). list_all is_digit (member_id mb) \<and>
           (member_id mb = lit ''123'' \<longrightarrow> display_name mb = lit ''Alice'')"
  proof
    fix mb assume "mb \<in> set (mentions m)"
    then obtain u :: user where u: "get_member srv (user_id u) = Some mb"
      unfolding s by auto
    with keyed have k: "user_id u = Some (member_id mb)" "list_all is_digit (member_id mb)"
      by blast+
    have "display_name mb = lit ''Alice''" if "member_id mb = lit ''123''"
      using u k(1) that assms(5,6) by simp
    with k(2) show "list_all is_digit (member_id mb) \<and>
           (member_id mb = lit ''123'' \<longrightarrow> display_name mb = lit ''Alice'')"
      by blast
  qed
qed


lemma alice_lookup:
  assumes "\<exists>mb\<in>set (mentions m). member_id mb = lit ''123''"
    and "\<forall>mb\<in>set (mentions m). list_all is_digit (member_id mb) \<and>
           (member_id mb = lit ''123'' \<longrightarrow> display_name mb = lit ''Alice'')"
  shows "map_of (transformations m) (lit ''<@123>'') = Some (lit ''@Alice'')"
    and "map_of (transformations m) (lit ''<@!123>'') = Some (lit ''@Alice'')"
proof -
  let ?t0 = "dict_comp (\<lambda>c. lit ''<#'' @ channel_id c @ lit ''>'')
                (\<lambda>c. lit ''#'' @ channel_name c) (channel_mentions m)"
  let ?mt = "dict_comp (\<lambda>mb. lit ''<@'' @ member_id mb @ lit ''>'')
              (\<lambda>mb. lit ''@'' @ display_name mb) (mentions m)"
  let ?mt2 = "dict_comp (\<lambda>mb. lit ''<@!'' @ member_id mb @ lit ''>'')
              (\<lambda>mb. lit ''@'' @ display_name mb) (mentions m)"
  let ?rt = "dict_comp (\<lambda>r. lit ''<@&'' @ role_id r @ lit ''>'')
                (\<lambda>r. lit ''@'' @ role_name r) (role_mentions m)"
  let ?t2 = "dict_update (dict_update ?t0 ?mt) ?mt2"
  have t: "transformations m = (if server m \<noteq> None then dict_update ?t2 ?rt else ?t2)"
    by (simp add: transformations_def Let_def)
  have a_rt: "lit ''<@123>'' \<notin> fst ` set ?rt" and b_rt: "lit ''<@!123>'' \<notin> fst ` set ?rt"
    and a_mt2: "lit ''<@123>'' \<notin> fst ` set ?mt2"
    by (auto simp: dict_comp_keys)
  from assms(1) obtain mb1 where mb1: "mb1 \<in> set (mentions m)" "member_id mb1 = lit ''123''"
    by blast
  have a_mt: "lit ''<@123>'' \<in> fst ` set ?mt"
    unfolding dict_comp_keys by (rule image_eqI [OF _ mb1(1)]) (simp add: mb1(2))
  have b_mt2: "lit ''<@!123>'' \<in> fst ` set ?mt2"
    unfolding dict_comp_keys by (rule image_eqI [OF _ mb1(1)]) (simp add: mb1(2))
  have a_val: "v = lit ''@Alice''" if "(lit ''<@123>'', v) \<in> set ?mt" for v
    using dict_comp_entries [OF that] assms(2) by auto
  have b_val: "v = lit ''@Alice''" if "(lit ''<@!123>'', v) \<in> set ?mt2" for v
    using dict_comp_entries [OF that] assms(2) by auto
  have "map_of ?t2 (lit ''<@123>'') = map_of (dict_update ?t0 ?mt) (lit ''<@123>'')"
    by (rule dict_update_lookup_other [OF a_mt2])
  also have "\<dots> = Some (lit ''@Alice'')"
    using dict_update_lookup [of "lit ''<@123>''" ?mt "lit ''@Alice''" ?t0, OF a_val] a_mt
    by simp
  finally have a: "map_of ?t2 (lit ''<@123>'') = Some (lit ''@Alice'')" .
  have b: "map_of ?t2 (lit ''<@!123>'') = Some (lit ''@Alice'')"
    using dict_update_lookup [of "lit ''<@!123>''" ?mt2 "lit ''@Alice''" "dict_update ?t0 ?mt",
        OF b_val] b_mt2
    by simp
  from a show "map_of (transformations m) (lit ''<@123>'') = Some (lit ''@Alice'')"
    unfolding t using dict_update_lookup_other [OF a_rt, of ?t2] by simp
  from b show "map_of (transformations m) (lit ''<@!123>'') = Some (lit ''@Alice'')"
    unfolding t using dict_update_lookup_other [OF b_rt, of ?t2] by simp
qed


lemma transformations_key_cases:
  assumes "k \<in> fst ` set (transformations m)"
  obtains c :: mentioned_channel where "k = lit ''<#'' @ channel_id c @ lit ''>''"
    | mb :: member where "mb \<in> set (mentions m)" "k = lit ''<@'' @ member_id mb @ lit ''>''"
    | mb :: member where "mb \<in> set (mentions m)" "k = lit ''<@!'' @ member_id mb @ lit ''>''"
    | r :: role where "k = lit ''<@&'' @ role_id r @ lit ''>''"
  using assms transformations_keys [of m] by blast

lemma transformations_key_heads:
  assumes "k \<in> fst ` set (transformations m)"
  shows "\<exists>k'. k = 60 # k'"
  using assms transformations_keys [of m] by auto

lemma keys_pattern_plain:
  assumes "c \<noteq> 60"
  shows "keys_pattern (transformations m) (c # cs) = None"
proof -
  have "\<not> prefix k (c # cs)" if "k \<in> fst ` set (transformations m)" for k
    using transformations_key_heads [OF that] assms by auto
  then have "find (\<lambda>k. prefix k (c # cs)) (map fst (transformations m)) = None"
    by (auto simp: find_None_iff)
  then show ?thesis
    by (simp add: keys_pattern_def)
qed

lemma alice_keys_pattern:
  assumes "\<exists>mb\<in>set (mentions m). member_id mb = lit ''123''"
    and "\<forall>mb\<in>set (mentions m). list_all is_digit (member_id mb) \<and>
           (member_id mb = lit ''123'' \<longrightarrow> display_name mb = lit ''Alice'')"
  shows "keys_pattern (transformations m) (lit ''<@123>'' @ rest) = Some (lit ''@Alice'', 6)"
    and "keys_pattern (transformations m) (lit ''<@!123>'' @ rest) = Some (lit ''@Alice'', 7)"
proof -
  note look = alice_lookup [OF assms]
  have digits: "list_all is_digit (member_id mb)" if "mb \<in> set (mentions m)" for mb
    using assms(2) that by blast
  have only_a: "k = lit ''<@123>''"
    if k: "k \<in> set (map fst (transformations m))" and p: "prefix k (lit ''<@123>'' @ rest)" for k
  proof -
    from k have "k \<in> fst ` set (transformations m)"
      by simp
    then show ?thesis
    proof (cases rule: transformations_key_cases)
      case (1 c)
      with p show ?thesis by simp
    next
      case (2 mb)
      from digits_no_markup [OF digits [OF 2(1)]] have "62 \<notin> set (lit ''<@'' @ member_id mb)"
        by simp
      from closed_marker_prefix [of k "lit ''<@'' @ member_id mb" 62 "lit ''<@123>''"
          "lit ''<@123''" rest, OF _ this] 2(2) p
      show ?thesis by simp
    next
      case (3 mb)
      with p show ?thesis by simp
    next
      case (4 r)
      with p show ?thesis by simp
    qed
  qed
  have only_b: "k = lit ''<@!123>''"
    if k: "k \<in> set (map fst (transformations m))" and p: "prefix k (lit ''<@!123>'' @ rest)" for k
  proof -
    from k have "k \<in> fst ` set (transformations m)"
      by simp
    then show ?thesis
    proof (cases rule: transformations_key_cases)
      case (1 c)
      with p show ?thesis by simp
    next
      case (2 mb)
      from digits [OF 2(1)] 2(2) p show ?thesis
        by (cases "member_id mb") (auto simp: is_digit_def)
    next
      case (3 mb)
      from digits_no_markup [OF digits [OF 3(1)]] have "62 \<notin> set (lit ''<@!'' @ member_id mb)"
        by simp
      from closed_marker_prefix [of k "lit ''<@!'' @ member_id mb" 62 "lit ''<@!123>''"
          "lit ''<@!123''" rest, OF _ this] 3(2) p
      show ?thesis by simp
    next
      case (4 r)
      with p show ?thesis by simp
    qed
  qed
  from look(1) have "lit ''<@123>'' \<in> set (map fst (transformations m))"
    by (auto dest!: map_of_SomeD intro: rev_image_eqI)
  then have "find (\<lambda>k. prefix k (lit ''<@123>'' @ rest)) (map fst (transformations m))
      = Some (lit ''<@123>'')"
    by (rule find_the_only) (use only_a in auto)
  with look(1) show "keys_pattern (transformations m) (lit ''<@123>'' @ rest)
      = Some (lit ''@Alice'', 6)"
    by (simp add: keys_pattern_def dict_get_def)
  from look(2) have "lit ''<@!123>'' \<in> set (map fst (transformations m))"
    by (auto dest!: map_of_SomeD intro: rev_image_eqI)
  then have "find (\<lambda>k. prefix k (lit ''<@!123>'' @ rest)) (map fst (transformations m))
      = Some (lit ''<@!123>'')"
    by (rule find_the_only) (use only_b in auto)
  with look(2) show "keys_pattern (transformations m) (lit ''<@!123>'' @ rest)
      = Some (lit ''@Alice'', 7)"
    by (simp add: keys_pattern_def dict_get_def)
qed

lemma alice_clean_content:
  assumes "content m = Some (lit ''hello <@123> and <@!123>'')"
    and "\<exists>mb\<in>set (mentions m). member_id mb = lit ''123''"
    and "\<forall>mb\<in>set (mentions m). list_all is_digit (member_id mb) \<and>
           (member_id mb = lit ''123'' \<longrightarrow> display_name mb = lit ''Alice'')"
  shows "clean_content_body m = Inr (lit ''hello @Alice and @Alice'')"
proof -
  note kp = alice_keys_pattern [OF assms(2,3), simplified]
  from alice_lookup(1) [OF assms(2,3)] have ne: "transformations m \<noteq> []"
    by auto
  have "scan_sub (keys_pattern (transformations m)) (lit ''hello <@123> and <@!123>'')
      = lit ''hello @Alice and @Alice''"
    by (simp add: keys_pattern_plain kp)
  with ne have "re_sub (transformations m) (lit ''hello <@123> and <@!123>'')
      = lit ''hello @Alice and @Alice''"
    by (simp only: re_sub_def if_False)
  moreover have "re_sub everyone_here (lit ''hello @Alice and @Alice'')
      = lit ''hello @Alice and @Alice''"
    by (simp add: re_sub_everyone_here keys_pattern_everyone_here)
  ultimately show ?thesis
    using assms(1) by (simp only: clean_content_body_def Let_def option.case)
qed


lemma init_without_mentions:
  "init example_parse_time
     (example_payload server_channel None (Some (lit ''hello <@123> and <@!123>'')) [] [])
   = Inr (example_server_message (Some (lit ''hello <@123> and <@!123>'')) [] [] [])"
  by (simp add: hydration_defs example_server_message_def)

text \<open>
  C4 (as the claim states it, refuted). The claim: in a channel of a server whose roster
  resolves the id 123 to a member with the display name Alice, the content
  \<open>hello <@123> and <@!123>\<close> gives the \<open>clean_content\<close> \<open>hello @Alice and @Alice\<close>. The
  keys of the substitution come from the payload's \<open>mentions\<close> alone: with the same content,
  channel and roster and an empty \<open>mentions\<close>, \<open>raw_mentions\<close> is 123 and 123, and
  \<open>clean_content\<close> is the content as it is.
\<close>

theorem markers_stay_without_payload_mention:
  "get_member example_server (Some (lit ''123'')) = Some alice
   \<and> display_name alice = lit ''Alice''
   \<and> then_value raw_mentions
     (init example_parse_time
        (example_payload server_channel None (Some (lit ''hello <@123> and <@!123>'')) [] []))
     = Inr [lit ''123'', lit ''123'']
   \<and> then_value clean_content
     (init example_parse_time
        (example_payload server_channel None (Some (lit ''hello <@123> and <@!123>'')) [] []))
     = Inr (lit ''hello <@123> and <@!123>'')
   \<and> then_value clean_content
     (init example_parse_time
        (example_payload server_channel None (Some (lit ''hello <@123> and <@!123>'')) [] []))
     \<noteq> Inr (lit ''hello @Alice and @Alice'')"
  unfolding init_without_mentions
  by (simp add: access_defs example_server_message_def example_server_def alice_def
     cached_slot_property_def re_findall_def match_marker_def is_digit_def)

text \<open>
  C4 (amended). For a message in a channel that is not private, with the content
  \<open>hello <@123> and <@!123>\<close>, whose payload's \<open>mentions\<close> has an entry with the id 123, and
  whose server's roster, keyed by decimal member ids, resolves 123 to a member with the
  display name Alice: \<open>raw_mentions\<close> is 123 and 123, and \<open>clean_content\<close> is
  \<open>hello @Alice and @Alice\<close>. This holds for every such payload, server and state before
  the hydration.
\<close>

theorem both_marker_forms_of_a_mentioned_member:
  assumes "update parse_time data self = Inr m"
    and "p_content data = Some (lit ''hello <@123> and <@!123>'')"
    and "p_channel data = Some (Channel i False (Some srv))"
    and "p_mentions data = Some ms" and "Some (lit ''123'') \<in> user_id ` set ms"
    and "get_member srv (Some (lit ''123'')) = Some mb" and "display_name mb = lit ''Alice''"
    and "\<forall>j mb'. get_member srv j = Some mb' \<longrightarrow>
           j = Some (member_id mb') \<and> list_all is_digit (member_id mb')"
  shows "returned (raw_mentions m) = Inr [lit ''123'', lit ''123''] \<and>
         returned (clean_content m) = Inr (lit ''hello @Alice and @Alice'')"
proof -
  from assms(1,2) have c: "content m = Some (lit ''hello <@123> and <@!123>'')"
    by (simp add: update_content)
  have "re_findall user_pattern (Some (lit ''hello <@123> and <@!123>''))
      = Inr [lit ''123'', lit ''123'']"
    by (simp add: re_findall_def user_pattern_def match_marker_def is_digit_def)
  with c have r: "returned (raw_mentions m) = Inr [lit ''123'', lit ''123'']"
    by (simp only: hydrated_accessors [OF assms(1)])
  from alice_clean_content [OF c mentioned_alice [OF assms(1,3,4,5,6,7,8)]]
  have "returned (clean_content m) = Inr (lit ''hello @Alice and @Alice'')"
    by (simp only: hydrated_accessors [OF assms(1)])
  with r show ?thesis
    by blast
qed

theorem both_marker_forms_of_a_mentioned_member_witness:
  "update example_parse_time
     (example_payload server_channel None (Some (lit ''hello <@123> and <@!123>''))
        [mention_of ''123''] []) unset
     = Inr (example_server_message (Some (lit ''hello <@123> and <@!123>'')) [alice] [] [])
   \<and> p_content (example_payload server_channel None (Some (lit ''hello <@123> and <@!123>''))
        [mention_of ''123''] []) = Some (lit ''hello <@123> and <@!123>'')
   \<and> p_channel (example_payload server_channel None (Some (lit ''hello <@123> and <@!123>''))
        [mention_of ''123''] []) = Some (Channel (lit ''42'') False (Some example_server))
   \<and> p_mentions (example_payload server_channel None (Some (lit ''hello <@123> and <@!123>''))
        [mention_of ''123''] []) = Some [mention_of ''123'']
   \<and> Some (lit ''123'') \<in> user_id ` set [mention_of ''123'']
   \<and> get_member example_server (Some (lit ''123'')) = Some alice
   \<and> display_name alice = lit ''Alice''
   \<and> member_id alice = lit ''123'' \<and> list_all is_digit (member_id alice)
   \<and> returned (raw_mentions
        (example_server_message (Some (lit ''hello <@123> and <@!123>'')) [alice] [] []))
       = Inr [lit ''123'', lit ''123'']
   \<and> returned (clean_content
        (example_server_message (Some (lit ''hello <@123> and <@!123>'')) [alice] [] []))
       = Inr (lit ''hello @Alice and @Alice'')"
proof -
  have u: "update example_parse_time
     (example_payload server_channel None (Some (lit ''hello <@123> and <@!123>''))
        [mention_of ''123''] []) unset
     = Inr (example_server_message (Some (lit ''hello <@123> and <@!123>'')) [alice] [] [])"
    by (simp add: hydration_defs example_server_message_def)
  have c: "p_content (example_payload server_channel None
        (Some (lit ''hello <@123> and <@!123>'')) [mention_of ''123''] [])
      = Some (lit ''hello <@123> and <@!123>'')"
    by (simp add: example_payload_def)
  have ch: "p_channel (example_payload server_channel None
        (Some (lit ''hello <@123> and <@!123>'')) [mention_of ''123''] [])
      = Some (Channel (lit ''42'') False (Some example_server))"
    by (simp add: example_payload_def server_channel_def)
  have ms: "p_mentions (example_payload server_channel None
        (Some (lit ''hello <@123> and <@!123>'')) [mention_of ''123''] [])
      = Some [mention_of ''123'']"
    by (simp add: example_payload_def)
  have e: "Some (lit ''123'') \<in> user_id ` set [mention_of ''123'']"
    by (simp add: mention_of_def)
  have g: "get_member example_server (Some (lit ''123'')) = Some alice"
    by (simp add: example_server_def)
  have d: "display_name alice = lit ''Alice''" "member_id alice = lit ''123''"
    "list_all is_digit (member_id alice)"
    by (simp_all add: alice_def is_digit_def)
  have k: "\<forall>j mb'. get_member example_server j = Some mb' \<longrightarrow>
           j = Some (member_id mb') \<and> list_all is_digit (member_id mb')"
    using d by (auto simp: example_server_def split: if_splits)
  from both_marker_forms_of_a_mentioned_member [OF u c ch ms e g d(1) k] u c ch ms e g d
  show ?thesis
    by blast
qed

end
